theory Spec2Isabelle
  imports Complex_Main "HOL-Library.Word" "HOL-Library.Multiset"
begin

section \<open>Strings of the source language\<close>

text \<open>
  A TypeScript string is a sequence of UTF-16 code units; \<open>length\<close>, \<open>slice\<close> and
  \<open>trim\<close> all work on code units. Numbers are modelled as integers (\<open>size\<close>,
  \<open>overlap\<close> and the loop index are whole numbers in every call the source makes).
\<close>

type_synonym js_string = "16 word list"

text \<open>
  \<open>String.prototype.trim\<close> strips WhiteSpace and LineTerminator code points:
  TAB, LF, VT, FF, CR, SPACE, NBSP, U+1680, U+2000..U+200A, U+2028, U+2029, U+202F,
  U+205F, U+3000 and U+FEFF.
\<close>

definition isWhiteSpace :: "16 word \<Rightarrow> bool" where
  "isWhiteSpace c =
     (c \<in> set [0x9, 0xA, 0xB, 0xC, 0xD, 0x20, 0xA0, 0x1680,
                0x2000, 0x2001, 0x2002, 0x2003, 0x2004, 0x2005, 0x2006, 0x2007,
                0x2008, 0x2009, 0x200A, 0x2028, 0x2029, 0x202F, 0x205F, 0x3000, 0xFEFF])"

definition trim :: "js_string \<Rightarrow> js_string" where
  "trim s = rev (dropWhile isWhiteSpace (rev (dropWhile isWhiteSpace s)))"

text \<open>
  \<open>s.slice(start, end)\<close>: a negative index counts from the end of the string, both
  indices are clamped to \<open>[0, length]\<close>, and an empty range gives the empty string.
\<close>

definition slice_js :: "'a list \<Rightarrow> int \<Rightarrow> int \<Rightarrow> 'a list" where
  "slice_js s start end =
     (let len = int (length s);
          from = (if start < 0 then max (len + start) 0 else min start len);
          to = (if end < 0 then max (len + end) 0 else min end len)
      in if to \<le> from then [] else take (nat (to - from)) (drop (nat from) s))"

section \<open>The fixed-window chunker\<close>

text \<open>
  \<^verbatim>\<open>
  function chunkText(text: string, size = 900, overlap = 100) {
    const chunks: string[] = [];
    let i = 0;
    while (i < text.length) {
      const chunk = text.slice(i, i + size);
      chunks.push(chunk.trim());
      i += size - overlap;
    }
    return chunks.filter(Boolean);
  }
  \<close>
  The \<open>while\<close> loop has no bound of its own, so it is a partial function into
  \<open>option\<close>: \<open>None\<close> is a run that never leaves the loop. \<open>filter(Boolean)\<close> removes
  the falsy elements, which for strings is exactly the empty string.
\<close>

partial_function (option) chunkText_loop ::
  "js_string \<Rightarrow> int \<Rightarrow> int \<Rightarrow> int \<Rightarrow> js_string list \<Rightarrow> js_string list option" where
  "chunkText_loop text sz overlap i chunks =
     (if i < int (length text)
      then chunkText_loop text sz overlap (i + (sz - overlap))
             (chunks @ [trim (slice_js text i (i + sz))])
      else Some chunks)"

definition chunkText :: "js_string \<Rightarrow> int \<Rightarrow> int \<Rightarrow> js_string list option" where
  "chunkText text sz overlap =
     map_option (filter (\<lambda>c. c \<noteq> [])) (chunkText_loop text sz overlap 0 [])"

text \<open>
  The window slices the loop takes when it advances by a positive \<open>step\<close>, before
  trimming: the slice at \<open>i\<close>, then the slices from \<open>i + step\<close> on.
\<close>

function windows :: "'a list \<Rightarrow> int \<Rightarrow> int \<Rightarrow> int \<Rightarrow> 'a list list" where
  "windows text sz step i =
     (if 0 < step \<and> i < int (length text)
      then slice_js text i (i + sz) # windows text sz step (i + step)
      else [])"
  by pat_completeness auto
termination
  by (relation "measure (\<lambda>(text, sz, step, i). nat (int (length text) - i))") auto

text \<open>
  Reassembly as the specification words it: drop from every chunk but the last the
  suffix it shares with its successor, that is keep its first \<open>size - overlap\<close>
  characters, and concatenate.
\<close>

fun reassemble :: "nat \<Rightarrow> 'a list list \<Rightarrow> 'a list" where
  "reassemble keep [] = []"
| "reassemble keep [w] = w"
| "reassemble keep (w # v # ws) = take keep w @ reassemble keep (v # ws)"

section \<open>Ingestion\<close>

text \<open>
  \<open>ingest\<close> chunks the text with the default parameters, then runs a retry loop of
  at most \<open>maxAttempts\<close> attempts. One attempt calls \<open>embedMany\<close> and then inserts
  one row per chunk with a single \<open>db.insert(embeddings).values(rows)\<close> call; both
  calls sit in the same \<open>try\<close> block, and the \<open>catch\<close> block logs the failure,
  throws after the last attempt and otherwise sleeps \<open>baseDelayMs * 2 ^ (attempt - 1)\<close>
  milliseconds before the next one.

  The embedding service, the database and \<open>nanoid\<close> are outside the repository. What
  they do in attempt \<open>a\<close> is given by \<open>outcome env a\<close>: \<open>embedMany\<close> throws, or it
  returns vectors and the insert either stores all rows or throws after having stored
  the first \<open>k\<close> of them: \<open>k = 0\<close> for a statement that is rolled back whole, as a
  failing single \<open>INSERT\<close> is, and \<open>k\<close> the number of rows for a statement that was
  committed although its error reached the caller (a connection lost before the
  acknowledgement).
  \<open>nanoid env n\<close> is the \<open>n\<close>-th identifier drawn. The world records the table, the
  number of identifiers drawn and the calls made, in order.
\<close>

record 'v embedding_row =
  row_id :: js_string
  row_resourceId :: js_string
  row_content :: js_string
  row_embedding :: "'v option"
  row_title :: "js_string option"
  row_order :: "int option"
  row_sourceUrl :: "js_string option"

datatype insert_outcome = InsertOk | InsertThrows nat

datatype 'v attempt_outcome = EmbedThrows | Embedded "'v list" insert_outcome

record 'v services =
  outcome :: "nat \<Rightarrow> 'v attempt_outcome"
  nanoid :: "nat \<Rightarrow> js_string"

datatype event = EmbedManyCall | InsertCall | ConsoleError nat | Sleep nat

record 'v world =
  embeddings :: "'v embedding_row list"
  idsDrawn :: nat
  trace :: "event list"

datatype ingest_result =
  Returned (success: bool) (chunksInserted: nat)
| Threw (attempts: nat)
| ReturnedUndefined

definition maxAttempts :: nat where
  "maxAttempts = 3"

definition baseDelayMs :: nat where
  "baseDelayMs = 1000"

text \<open>
  One row per chunk: \<open>title || null\<close> and \<open>sourceUrl || null\<close> turn a missing or
  empty string into \<open>null\<close>; \<open>order\<close> is \<open>order + idx\<close> when an order was given;
  \<open>vectors[idx]\<close> is \<open>undefined\<close> beyond the end of \<open>vectors\<close>.
\<close>

definition or_null :: "js_string option \<Rightarrow> js_string option" where
  "or_null v = (case v of None \<Rightarrow> None | Some s \<Rightarrow> if s = [] then None else Some s)"

definition make_rows ::
  "(nat \<Rightarrow> js_string) \<Rightarrow> nat \<Rightarrow> js_string \<Rightarrow> js_string option \<Rightarrow> int option \<Rightarrow>
   js_string option \<Rightarrow> 'v list \<Rightarrow> js_string list \<Rightarrow> 'v embedding_row list" where
  "make_rows ids drawn resourceId title startOrder sourceUrl vectors chunks =
     map (\<lambda>(idx, content).
            \<lparr>row_id = ids (drawn + idx),
             row_resourceId = resourceId,
             row_content = content,
             row_embedding = (if idx < length vectors then Some (vectors ! idx) else None),
             row_title = or_null title,
             row_order = (case startOrder of None \<Rightarrow> None | Some n \<Rightarrow> Some (n + int idx)),
             row_sourceUrl = or_null sourceUrl\<rparr>)
         (enumerate 0 chunks)"

text \<open>
  \<^verbatim>\<open>
  const chunks = chunkText(text);
  const maxAttempts = 3;
  const baseDelayMs = 1000;
  for (let attempt = 1; attempt <= maxAttempts; attempt++) {
    try {
      const vectors = await embedMany(chunks);
      await db.insert(embeddings).values(chunks.map((content, idx) => ({ ... })));
      return { success: true, chunksInserted: chunks.length };
    } catch (error) {
      console.error(...);
      if (attempt === maxAttempts) { throw new Error(...); }
      const delay = baseDelayMs * Math.pow(2, attempt - 1);
      await new Promise((resolve) => setTimeout(resolve, delay));
    }
  }
  \<close>
  \<open>try_block\<close> is the body of the \<open>try\<close>: \<open>Some r\<close> when it returns \<open>r\<close>, \<open>None\<close>
  when one of its two calls throws. \<open>Threw n\<close> is the error thrown by the
  \<open>catch\<close> block, whose message names \<open>n = maxAttempts\<close> attempts.
\<close>

definition logged :: "event list \<Rightarrow> 'v world \<Rightarrow> 'v world" where
  "logged es w = w\<lparr>trace := trace w @ es\<rparr>"

definition try_block ::
  "'v services \<Rightarrow> js_string \<Rightarrow> js_string option \<Rightarrow> int option \<Rightarrow> js_string option \<Rightarrow>
   js_string list \<Rightarrow> nat \<Rightarrow> 'v world \<Rightarrow> ingest_result option \<times> 'v world" where
  "try_block env resourceId title startOrder sourceUrl chunks attempt w =
     (case outcome env attempt of
        EmbedThrows \<Rightarrow> (None, logged [EmbedManyCall] w)
      | Embedded vectors ins \<Rightarrow>
          (let rows = make_rows (nanoid env) (idsDrawn w) resourceId title startOrder sourceUrl
                        vectors chunks;
               w1 = (logged [EmbedManyCall, InsertCall] w)
                      \<lparr>idsDrawn := idsDrawn w + length chunks\<rparr>
           in case ins of
                InsertOk \<Rightarrow>
                  (Some (Returned True (length chunks)),
                   w1\<lparr>embeddings := embeddings w1 @ rows\<rparr>)
              | InsertThrows k \<Rightarrow>
                  (None, w1\<lparr>embeddings := embeddings w1 @ take k rows\<rparr>)))"

function ingest_loop ::
  "'v services \<Rightarrow> js_string \<Rightarrow> js_string option \<Rightarrow> int option \<Rightarrow> js_string option \<Rightarrow>
   js_string list \<Rightarrow> nat \<Rightarrow> 'v world \<Rightarrow> ingest_result \<times> 'v world" where
  "ingest_loop env resourceId title startOrder sourceUrl chunks attempt w =
     (if attempt \<le> maxAttempts
      then (case try_block env resourceId title startOrder sourceUrl chunks attempt w of
              (Some r, w1) \<Rightarrow> (r, w1)
            | (None, w1) \<Rightarrow>
                (let w2 = logged [ConsoleError attempt] w1
                 in if attempt = maxAttempts
                    then (Threw maxAttempts, w2)
                    else ingest_loop env resourceId title startOrder sourceUrl chunks (attempt + 1)
                           (logged [Sleep (baseDelayMs * 2 ^ (attempt - 1))] w2)))
      else (ReturnedUndefined, w))"
  by pat_completeness auto
termination
  by (relation "measure (\<lambda>(env, resourceId, title, startOrder, sourceUrl, chunks, attempt, w).
                           maxAttempts + 1 - attempt)") auto

definition ingest ::
  "'v services \<Rightarrow> js_string \<Rightarrow> js_string \<Rightarrow> js_string option \<Rightarrow> int option \<Rightarrow>
   js_string option \<Rightarrow> 'v world \<Rightarrow> (ingest_result \<times> 'v world) option" where
  "ingest env resourceId text title startOrder sourceUrl w =
     (case chunkText text 900 100 of
        None \<Rightarrow> None
      | Some chunks \<Rightarrow> Some (ingest_loop env resourceId title startOrder sourceUrl chunks 1 w))"


section \<open>Retrieval\<close>

text \<open>
  \<^verbatim>\<open>
  export const findRelevantContent = async (userQuery: string) => {
    const userQueryEmbedded = await generateEmbedding(userQuery);
    const similarity = sql<number>`1 - (${cosineDistance(embeddings.embedding, userQueryEmbedded)})`;
    const results = await db
      .select({ name: embeddings.content, similarity })
      .from(embeddings)
      .where(gt(similarity, 0.3))
      .orderBy((t) => desc(t.similarity))
      .limit(4);
    return results;
  };
  \<close>
  The function takes the query only. The embedding of the query and the cosine distance
  are computed outside the repository (embedding service, database): \<open>sim r\<close> stands
  for the similarity the database computes for row \<open>r\<close> and the embedded query, taken
  as a real number. The query keeps the rows with \<open>similarity > 0.3\<close>, orders them by
  similarity, descending, and returns the first 4 as \<open>{name, similarity}\<close>. SQL leaves
  the order of rows with equal sort keys open, so the query is a relation:
  \<open>findRelevantContent sim table results\<close> holds when \<open>results\<close> is a possible answer,
  that is the first 4 rows of some ordering of the qualifying rows that is descending
  in similarity. \<open>orderings\<close> lists all orderings of a list.
\<close>

record retrieved =
  name :: js_string
  similarity :: real

fun interleave :: "'a \<Rightarrow> 'a list \<Rightarrow> 'a list list" where
  "interleave x [] = [[x]]"
| "interleave x (y # ys) = (x # y # ys) # map ((#) y) (interleave x ys)"

fun orderings :: "'a list \<Rightarrow> 'a list list" where
  "orderings [] = [[]]"
| "orderings (x # xs) = concat (map (interleave x) (orderings xs))"

definition ranked_desc :: "('r \<Rightarrow> real) \<Rightarrow> 'r list \<Rightarrow> bool" where
  "ranked_desc sim rows = sorted_wrt (\<lambda>a b. sim b \<le> sim a) rows"

definition findRelevantContent ::
  "('v embedding_row \<Rightarrow> real) \<Rightarrow> 'v embedding_row list \<Rightarrow> retrieved list \<Rightarrow> bool" where
  "findRelevantContent sim table results =
     (\<exists>ranked \<in> set (orderings (filter (\<lambda>r. 0.3 < sim r) table)).
        ranked_desc sim ranked \<and>
        results = map (\<lambda>r. \<lparr>name = row_content r, similarity = sim r\<rparr>) (take 4 ranked))"

text \<open>
  The retrieval contract in the specification's words, for comparison: parameters
  \<open>topK\<close> and \<open>minSimilarity\<close>; rank descending by similarity, discard the entries
  with \<open>similarity \<le> minSimilarity\<close>, truncate to \<open>topK\<close>.
\<close>

definition findRelevant_spec ::
  "nat \<Rightarrow> real \<Rightarrow> ('v embedding_row \<Rightarrow> real) \<Rightarrow> 'v embedding_row list \<Rightarrow> retrieved list \<Rightarrow> bool" where
  "findRelevant_spec topK minSimilarity sim table results =
     (\<exists>ranked \<in> set (orderings table).
        ranked_desc sim ranked \<and>
        results = map (\<lambda>r. \<lparr>name = row_content r, similarity = sim r\<rparr>)
                    (take topK (filter (\<lambda>r. \<not> sim r \<le> minSimilarity) ranked)))"

text \<open>
  Sample data for the concrete instances below: a row with content \<open>c\<close> whose
  similarity to the query is \<open>s\<close>.
\<close>

definition sample_row :: "js_string \<Rightarrow> real \<Rightarrow> real embedding_row" where
  "sample_row c s =
     \<lparr>row_id = c, row_resourceId = [], row_content = c, row_embedding = Some s,
      row_title = None, row_order = None, row_sourceUrl = None\<rparr>"

definition sample_sim :: "real embedding_row \<Rightarrow> real" where
  "sample_sim r = (case row_embedding r of None \<Rightarrow> 0 | Some s \<Rightarrow> s)"


section \<open>Conversations and messages\<close>

text \<open>
  \<^verbatim>\<open>
  CREATE TABLE IF NOT EXISTS "conversations" (
    "id" varchar(191) PRIMARY KEY NOT NULL, "user_id" uuid NOT NULL, "title" varchar(255),
    "created_at" timestamp DEFAULT now() NOT NULL, "updated_at" timestamp DEFAULT now() NOT NULL);
  CREATE TABLE IF NOT EXISTS "messages" (
    "id" varchar(191) PRIMARY KEY NOT NULL, "conversation_id" varchar(191) NOT NULL,
    "role" varchar(20) NOT NULL, "content" text NOT NULL, "tool_calls" jsonb,
    "tool_results" jsonb, "created_at" timestamp DEFAULT now() NOT NULL);
  ALTER TABLE "messages" ADD CONSTRAINT "messages_conversation_id_fkey"
    FOREIGN KEY ("conversation_id") REFERENCES "conversations" ("id") ON DELETE CASCADE;
  \<close>
  The Drizzle schema declares the same: \<open>conversationId\<close> is \<open>notNull()\<close> and
  \<open>references(() => conversations.id, { onDelete: "cascade" })\<close>. The repository only
  declares the tables; the statements below are what a database with this schema
  does on the key columns: a primary key rejects a duplicate \<open>id\<close>, the foreign key
  rejects a message (inserted or updated) whose \<open>conversation_id\<close> names no
  conversation, deleting a conversation deletes its messages with it, and changing the
  \<open>id\<close> of a conversation that still has messages is rejected (no \<open>ON UPDATE\<close> action is
  declared). \<open>conversation_id\<close> is \<open>NOT NULL\<close>, so it is a plain string. Column
  lengths and the row-level-security policies are left out.
\<close>

record conversation =
  c_id :: js_string
  c_user_id :: js_string
  c_title :: "js_string option"
  c_created_at :: nat
  c_updated_at :: nat

record message =
  m_id :: js_string
  m_conversation_id :: js_string
  m_role :: js_string
  m_content :: js_string
  m_tool_calls :: "js_string option"
  m_tool_results :: "js_string option"
  m_created_at :: nat

record database =
  conversations :: "conversation list"
  messages :: "message list"

datatype statement =
  InsertConversation conversation
| InsertMessage message
| DeleteConversation js_string
| DeleteMessage js_string
| UpdateMessageConversation js_string js_string
| UpdateConversationId js_string js_string

datatype sql_error = UniqueViolation | ForeignKeyViolation

fun execute :: "statement \<Rightarrow> database \<Rightarrow> sql_error + database" where
  "execute (InsertConversation c) db =
     (if c_id c \<in> set (map c_id (conversations db)) then Inl UniqueViolation
      else Inr (db\<lparr>conversations := conversations db @ [c]\<rparr>))"
| "execute (InsertMessage m) db =
     (if m_id m \<in> set (map m_id (messages db)) then Inl UniqueViolation
      else if m_conversation_id m \<notin> set (map c_id (conversations db))
      then Inl ForeignKeyViolation
      else Inr (db\<lparr>messages := messages db @ [m]\<rparr>))"
| "execute (DeleteConversation cid) db =
     Inr (db\<lparr>conversations := filter (\<lambda>c. c_id c \<noteq> cid) (conversations db),
              messages := filter (\<lambda>m. m_conversation_id m \<noteq> cid) (messages db)\<rparr>)"
| "execute (DeleteMessage mid) db =
     Inr (db\<lparr>messages := filter (\<lambda>m. m_id m \<noteq> mid) (messages db)\<rparr>)"
| "execute (UpdateMessageConversation mid cid) db =
     (if mid \<in> set (map m_id (messages db)) \<and> cid \<notin> set (map c_id (conversations db))
      then Inl ForeignKeyViolation
      else Inr (db\<lparr>messages :=
                  map (\<lambda>m. if m_id m = mid then m\<lparr>m_conversation_id := cid\<rparr> else m)
                    (messages db)\<rparr>))"
| "execute (UpdateConversationId old new) db =
     (if old = new \<or> old \<notin> set (map c_id (conversations db)) then Inr db
      else if new \<in> set (map c_id (conversations db)) then Inl UniqueViolation
      else if old \<in> set (map m_conversation_id (messages db)) then Inl ForeignKeyViolation
      else Inr (db\<lparr>conversations :=
                  map (\<lambda>c. if c_id c = old then c\<lparr>c_id := new\<rparr> else c)
                    (conversations db)\<rparr>))"

text \<open>
  A session is a list of statements; a rejected statement leaves the database as it was.
\<close>

fun run :: "statement list \<Rightarrow> database \<Rightarrow> database" where
  "run [] db = db"
| "run (s # ss) db = (case execute s db of Inl e \<Rightarrow> run ss db | Inr db' \<Rightarrow> run ss db')"

text \<open>
  The referential invariant: every message names an existing conversation.
\<close>

definition references_hold :: "database \<Rightarrow> bool" where
  "references_hold db =
     (\<forall>m \<in> set (messages db). m_conversation_id m \<in> set (map c_id (conversations db)))"

text \<open>
  Sample rows for the concrete instance below.
\<close>

definition sample_conversation :: "js_string \<Rightarrow> conversation" where
  "sample_conversation i =
     \<lparr>c_id = i, c_user_id = [0x75], c_title = None, c_created_at = 0, c_updated_at = 0\<rparr>"

definition sample_message :: "js_string \<Rightarrow> js_string \<Rightarrow> message" where
  "sample_message i c =
     \<lparr>m_id = i, m_conversation_id = c, m_role = [0x75], m_content = [0x68, 0x69],
      m_tool_calls = None, m_tool_results = None, m_created_at = 0\<rparr>"


declare chunkText_loop.simps [code]
declare windows.simps [simp del]
declare ingest_loop.simps [simp del]

section \<open>Properties of the chunker\<close>


lemma chunkText_loop_windows_aux:
  "step = sz - overlap \<Longrightarrow> 0 < step \<Longrightarrow>
   chunkText_loop text sz overlap i chunks =
     Some (chunks @ map trim (windows text sz step i))"
proof (induction "text" sz step i arbitrary: chunks rule: windows.induct)
  case (1 t sz step i)
  show ?case
  proof (cases "i < int (length t)")
    case True
    with 1 show ?thesis
      by (subst chunkText_loop.simps, subst windows.simps) simp
  next
    case False
    then show ?thesis
      by (subst chunkText_loop.simps, subst windows.simps) simp
  qed
qed

lemma chunkText_loop_stuck:
  assumes "chunkText_loop text sz overlap i chunks = Some r"
  shows "\<not> (sz \<le> overlap \<and> i < int (length text))"
  using assms
proof (induction rule: chunkText_loop.raw_induct [rotated 1, consumes 1])
  case (1 loop t sz overlap i chunks r)
  show ?case
  proof
    assume c: "sz \<le> overlap \<and> i < int (length t)"
    with 1(2) have "loop t sz overlap (i + (sz - overlap))
        (chunks @ [trim (slice_js t i (i + sz))]) = Some r"
      by simp
    from 1(1) [OF this] c show False by simp
  qed
qed


lemma slice_js_inside:
  "0 \<le> i \<Longrightarrow> i < int (length s) \<Longrightarrow> 0 < sz \<Longrightarrow>
   slice_js s i (i + sz) = take (nat sz) (drop (nat i) s)"
proof -
  assume a: "0 \<le> i" "i < int (length s)" "0 < sz"
  show ?thesis
  proof (cases "i + sz \<le> int (length s)")
    case True
    with a show ?thesis by (simp add: slice_js_def Let_def)
  next
    case False
    with a have "length (drop (nat i) s) \<le> nat sz" by simp
    then have "take (nat sz) (drop (nat i) s) = drop (nat i) s" by simp
    moreover have "take (nat (int (length s) - i)) (drop (nat i) s) = drop (nat i) s"
      using a by (simp add: nat_diff_distrib)
    ultimately show ?thesis using a False by (simp add: slice_js_def Let_def)
  qed
qed

lemma slice_js_nonempty:
  "0 \<le> i \<Longrightarrow> i < int (length s) \<Longrightarrow> 0 < sz \<Longrightarrow> slice_js s i (i + sz) \<noteq> []"
  by (simp add: slice_js_inside)

lemma set_slice_js: "set (slice_js s a b) \<subseteq> set s"
  by (auto simp: slice_js_def Let_def dest!: in_set_takeD in_set_dropD)

lemma windows_length:
  "0 < step \<Longrightarrow> length (windows text sz step i) = nat (- ((i - int (length text)) div step))"
proof (induction "text" sz step i rule: windows.induct)
  case (1 t sz step i)
  show ?case
  proof (cases "i < int (length t)")
    case True
    have d: "(i + step - int (length t)) div step = (i - int (length t)) div step + 1"
    proof -
      have "(i + step - int (length t)) = (i - int (length t)) + step" by simp
      then show ?thesis using 1(2) by (metis div_add_self2 less_irrefl)
    qed
    have neg: "(i - int (length t)) div step < 0"
      using True 1(2) by (intro div_neg_pos_less0) simp_all
    show ?thesis
      using True 1 d neg by (subst windows.simps) simp
  next
    case False
    then have "0 \<le> (i - int (length t)) div step"
      using 1(2) by (simp add: pos_imp_zdiv_nonneg_iff)
    with False show ?thesis
      by (subst windows.simps) simp
  qed
qed

lemma windows_nth:
  "k < length (windows text sz step i) \<Longrightarrow>
   windows text sz step i ! k = slice_js text (i + int k * step) (i + int k * step + sz)"
proof (induction k arbitrary: i)
  case 0
  then show ?case by (subst (asm) windows.simps, subst windows.simps) (simp split: if_splits)
next
  case (Suc k)
  from Suc.prems have c: "0 < step \<and> i < int (length text)"
    by (subst (asm) windows.simps) (simp split: if_splits)
  with Suc.prems have "k < length (windows text sz step (i + step))"
    by (subst (asm) windows.simps) simp
  from Suc.IH [OF this] c show ?case
    by (subst windows.simps) (simp add: algebra_simps)
qed

lemma windows_start_in_text:
  assumes "k < length (windows text sz step i)"
  shows "i + int k * step < int (length text)"
  using assms
proof (induction k arbitrary: i)
  case 0
  then show ?case by (subst (asm) windows.simps) (simp split: if_splits)
next
  case (Suc k)
  from Suc.prems have c: "0 < step \<and> i < int (length text)"
    by (subst (asm) windows.simps) (simp split: if_splits)
  with Suc.prems have "k < length (windows text sz step (i + step))"
    by (subst (asm) windows.simps) simp
  from Suc.IH [OF this] show ?case by (simp add: algebra_simps)
qed

lemma reassemble_windows:
  "0 \<le> i \<Longrightarrow> 0 < step \<Longrightarrow> step \<le> sz \<Longrightarrow>
   reassemble (nat step) (windows text sz step i) = drop (nat i) text"
proof (induction "text" sz step i rule: windows.induct)
  case (1 t sz step i)
  show ?case
  proof (cases "i < int (length t)")
    case False
    then show ?thesis using 1(2) by (subst windows.simps) simp
  next
    case True
    note w = slice_js_inside [OF 1(2) True, of sz]
    show ?thesis
    proof (cases "i + step < int (length t)")
      case False
      then have "windows t sz step (i + step) = []"
        by (subst windows.simps) simp
      then have "windows t sz step i = [slice_js t i (i + sz)]"
        using True 1(3) by (subst windows.simps) simp
      moreover have "take (nat sz) (drop (nat i) t) = drop (nat i) t"
        using False 1 by simp
      ultimately show ?thesis using w 1 by simp
    next
      case next_in: True
      have "windows t sz step (i + step)
          = slice_js t (i + step) (i + step + sz) # windows t sz step (i + step + step)"
        using next_in 1(3) by (subst windows.simps) simp
      then obtain v vs where r: "windows t sz step (i + step) = v # vs"
        by blast
      have ih: "reassemble (nat step) (windows t sz step (i + step)) = drop (nat (i + step)) t"
        using 1 True by simp
      have "windows t sz step i = slice_js t i (i + sz) # v # vs"
        using True 1(3) r by (subst windows.simps) simp
      then have "reassemble (nat step) (windows t sz step i)
          = take (nat step) (slice_js t i (i + sz)) @ reassemble (nat step) (v # vs)"
        by simp
      also have "\<dots> = take (nat step) (drop (nat i) t) @ drop (nat (i + step)) t"
        using ih r w 1 by (simp add: min_def)
      also have "\<dots> = drop (nat i) t"
      proof -
        have "drop (nat (i + step)) t = drop (nat step) (drop (nat i) t)"
          using 1(2,3) by (simp add: nat_add_distrib add.commute)
        then show ?thesis by (simp only: append_take_drop_id)
      qed
      finally show ?thesis .
    qed
  qed
qed


lemma trim_eq_Nil: "trim s = [] \<longleftrightarrow> (\<forall>c\<in>set s. isWhiteSpace c)"
proof
  assume "trim s = []"
  then have "dropWhile isWhiteSpace (rev (dropWhile isWhiteSpace s)) = []"
    by (simp add: trim_def)
  then have "\<forall>c\<in>set (rev (dropWhile isWhiteSpace s)). isWhiteSpace c"
    by (simp only: dropWhile_eq_Nil_conv)
  then have "dropWhile isWhiteSpace s = []"
    by (metis hd_dropWhile hd_in_set set_rev)
  then show "\<forall>c\<in>set s. isWhiteSpace c"
    by (simp only: dropWhile_eq_Nil_conv)
next
  assume "\<forall>c\<in>set s. isWhiteSpace c"
  then have "dropWhile isWhiteSpace s = []"
    by (simp only: dropWhile_eq_Nil_conv)
  then show "trim s = []"
    by (simp only: trim_def rev.simps dropWhile.simps)
qed

lemma trim_ends:
  assumes "trim s \<noteq> []"
  shows "\<not> isWhiteSpace (hd (trim s)) \<and> \<not> isWhiteSpace (last (trim s))"
proof -
  let ?d = "dropWhile isWhiteSpace s"
  let ?e = "dropWhile isWhiteSpace (rev ?d)"
  from assms have e: "?e \<noteq> []" by (simp add: trim_def)
  have d: "?d \<noteq> []"
  proof
    assume "?d = []"
    then have "?e = []" by (simp only: rev.simps dropWhile.simps)
    with e show False by simp
  qed
  have "\<not> isWhiteSpace (hd ?e)" using e by (rule hd_dropWhile)
  then have l: "\<not> isWhiteSpace (last (trim s))"
    using e by (simp add: trim_def last_rev)
  have hd_d: "\<not> isWhiteSpace (hd ?d)" using d by (rule hd_dropWhile)
  have lr: "last (rev ?d) = hd ?d" using d by (simp add: last_rev)
  obtain pre where pre: "rev ?d = pre @ ?e"
    by (metis takeWhile_dropWhile_id)
  have "last (pre @ ?e) = last ?e" using e by (rule last_appendR)
  with lr pre have "last ?e = hd ?d" by (simp only:)
  then have "hd (trim s) = hd ?d" using e by (simp add: trim_def hd_rev)
  with hd_d l show ?thesis by simp
qed

lemma trim_no_space: "\<forall>c\<in>set s. \<not> isWhiteSpace c \<Longrightarrow> trim s = s"
proof -
  assume a: "\<forall>c\<in>set s. \<not> isWhiteSpace c"
  then have "dropWhile isWhiteSpace s = s"
    by (cases s) simp_all
  moreover from a have "dropWhile isWhiteSpace (rev s) = rev s"
    by (cases "rev s") (simp, metis dropWhile.simps(2) list.set_intros(1) set_rev)
  ultimately show ?thesis by (simp add: trim_def)
qed

lemma chunkText_windows:
  "overlap < sz \<Longrightarrow>
   chunkText text sz overlap =
     Some (filter (\<lambda>c. c \<noteq> []) (map trim (windows text sz (sz - overlap) 0)))"
  by (simp add: chunkText_def chunkText_loop_windows_aux)

lemma chunkText_empty: "chunkText [] sz overlap = Some []"
  by (simp add: chunkText_def chunkText_loop.simps)

lemma windows_empty: "windows [] sz step i = []" if "0 \<le> i" for i
  using that by (simp add: windows.simps)

lemma chunkText_stuck:
  "sz \<le> overlap \<Longrightarrow> text \<noteq> [] \<Longrightarrow> chunkText text sz overlap = None"
proof -
  assume a: "sz \<le> overlap" "text \<noteq> []"
  have "chunkText_loop text sz overlap 0 [] = None"
  proof (cases "chunkText_loop text sz overlap 0 []")
    case None
    then show ?thesis .
  next
    case (Some r)
    from chunkText_loop_stuck [OF this] a show ?thesis by simp
  qed
  then show ?thesis by (simp add: chunkText_def)
qed

lemma set_reassemble: "set (reassemble keep ws) \<subseteq> \<Union> (set ` set ws)"
  by (induction keep ws rule: reassemble.induct) (auto dest: in_set_takeD)

lemma windows_subset: "w \<in> set (windows text sz step i) \<Longrightarrow> set w \<subseteq> set text"
proof -
  assume "w \<in> set (windows text sz step i)"
  then obtain k where "k < length (windows text sz step i)" "w = windows text sz step i ! k"
    by (auto simp: in_set_conv_nth)
  then show ?thesis
    by (simp add: windows_nth set_slice_js)
qed

lemma windows_cover:
  assumes "0 \<le> overlap" "overlap < sz"
  shows "\<Union> (set ` set (windows text sz (sz - overlap) 0)) = set text"
proof
  show "\<Union> (set ` set (windows text sz (sz - overlap) 0)) \<subseteq> set text"
    using windows_subset by blast
  have "reassemble (nat (sz - overlap)) (windows text sz (sz - overlap) 0) = drop (nat 0) text"
    using assms by (intro reassemble_windows) simp_all
  then have r: "reassemble (nat (sz - overlap)) (windows text sz (sz - overlap) 0) = text"
    by (simp only: nat_0 drop_0)
  show "set text \<subseteq> \<Union> (set ` set (windows text sz (sz - overlap) 0))"
    using set_reassemble [of "nat (sz - overlap)" "windows text sz (sz - overlap) 0"]
    unfolding r .
qed

lemma chunks_ends:
  "c \<in> set (filter (\<lambda>c. c \<noteq> []) (map trim ws)) \<Longrightarrow>
   c \<noteq> [] \<and> \<not> isWhiteSpace (hd c) \<and> \<not> isWhiteSpace (last c)"
  using trim_ends by auto

text \<open>
  Claim C9. Whenever \<open>chunkText\<close> returns (the step \<open>size - overlap\<close> is positive, or
  the text is empty), its result is the list of window slices of the input, each
  trimmed, with the empty ones removed: window \<open>k\<close> is
  \<open>text.slice(k * (size - overlap), k * (size - overlap) + size)\<close>. Hence every chunk
  returned is non-empty and neither begins nor ends with a whitespace code unit.
\<close>

theorem chunkText_chunks_trimmed:
  assumes "overlap < sz \<or> text = []"
  shows "chunkText text sz overlap =
           Some (filter (\<lambda>c. c \<noteq> []) (map trim (windows text sz (sz - overlap) 0))) \<and>
         (\<forall>k < length (windows text sz (sz - overlap) 0).
            windows text sz (sz - overlap) 0 ! k =
              slice_js text (int k * (sz - overlap)) (int k * (sz - overlap) + sz)) \<and>
         (\<forall>cs. chunkText text sz overlap = Some cs \<longrightarrow>
            (\<forall>c\<in>set cs. c \<noteq> [] \<and> \<not> isWhiteSpace (hd c) \<and> \<not> isWhiteSpace (last c)))"
proof -
  let ?ws = "windows text sz (sz - overlap) 0"
  have eq: "chunkText text sz overlap = Some (filter (\<lambda>c. c \<noteq> []) (map trim ?ws))"
  proof (cases "overlap < sz")
    case True
    then show ?thesis by (rule chunkText_windows)
  next
    case False
    with assms have "text = []" by simp
    then show ?thesis by (simp add: chunkText_empty windows_empty)
  qed
  have nth: "\<forall>k < length ?ws. ?ws ! k =
      slice_js text (int k * (sz - overlap)) (int k * (sz - overlap) + sz)"
    using windows_nth [of _ "text" sz "sz - overlap" 0] by simp
  have ends: "\<forall>cs. chunkText text sz overlap = Some cs \<longrightarrow>
      (\<forall>c\<in>set cs. c \<noteq> [] \<and> \<not> isWhiteSpace (hd c) \<and> \<not> isWhiteSpace (last c))"
    unfolding eq using chunks_ends by blast
  from eq nth ends show ?thesis by (intro conjI)
qed

text \<open>
  Claim C9 at a concrete input: the text \<open>" a  b "\<close> with size 3 and overlap 1.
\<close>

theorem chunkText_chunks_trimmed_witness:
  "chunkText [0x20, 0x61, 0x20, 0x20, 0x62, 0x20] 3 1 = Some [[0x61], [0x62], [0x62]]"
proof -
  let ?t = "[0x20, 0x61, 0x20, 0x20, 0x62, 0x20 :: 16 word]"
  have "(1::int) < 3 \<or> ?t = []" by simp
  from chunkText_chunks_trimmed [OF this]
  have cs: "chunkText ?t 3 1 =
      Some (filter (\<lambda>c. c \<noteq> []) (map trim (windows ?t 3 (3 - 1) 0)))"
    by (rule conjunct1)
  have w: "windows ?t 3 (3 - 1) 0 = [[0x20, 0x61, 0x20], [0x20, 0x20, 0x62], [0x62, 0x20]]"
    by (simp add: windows.simps slice_js_def)
  have "filter (\<lambda>c. c \<noteq> [])
          (map trim [[0x20, 0x61, 0x20], [0x20, 0x20, 0x62], [0x62, 0x20]])
        = [[0x61], [0x62], [0x62]]"
    by (simp add: trim_def isWhiteSpace_def)
  with cs w show ?thesis by (simp only:)
qed

lemma windows_length_ceiling:
  "0 < step \<Longrightarrow>
   length (windows text sz step 0) = nat \<lceil>real (length text) / real_of_int step\<rceil>"
proof -
  assume "0 < step"
  then have "length (windows text sz step 0) = nat (- ((- int (length text)) div step))"
    by (simp add: windows_length)
  also have "- ((- int (length text)) div step) = \<lceil>real_of_int (int (length text)) / real_of_int step\<rceil>"
    by (simp only: ceiling_divide_eq_div)
  finally show ?thesis by simp
qed

text \<open>
  Claim C4, as amended. For \<open>0 \<le> overlap < size\<close> the loop takes exactly
  \<open>\<lceil>L / (size - overlap)\<rceil>\<close> window slices; window \<open>k\<close> is the non-empty substring of at
  most \<open>size\<close> characters that starts at \<open>k * (size - overlap)\<close>; keeping the first
  \<open>size - overlap\<close> characters of every window but the last and concatenating gives
  back the text. \<open>chunkText\<close> returns these windows trimmed, with the empty ones
  removed; when the text holds no whitespace the chunks are the windows themselves.
\<close>

theorem chunkText_windows_reassemble:
  assumes "0 \<le> overlap" and "overlap < sz"
  shows "chunkText text sz overlap =
           Some (filter (\<lambda>c. c \<noteq> []) (map trim (windows text sz (sz - overlap) 0))) \<and>
         length (windows text sz (sz - overlap) 0) =
           nat \<lceil>real (length text) / real_of_int (sz - overlap)\<rceil> \<and>
         (\<forall>k < length (windows text sz (sz - overlap) 0).
            windows text sz (sz - overlap) 0 ! k =
              take (nat sz) (drop (k * nat (sz - overlap)) text) \<and>
            windows text sz (sz - overlap) 0 ! k \<noteq> []) \<and>
         reassemble (nat (sz - overlap)) (windows text sz (sz - overlap) 0) = text \<and>
         ((\<forall>u\<in>set text. \<not> isWhiteSpace u) \<longrightarrow>
            chunkText text sz overlap = Some (windows text sz (sz - overlap) 0))"
proof -
  let ?step = "sz - overlap"
  let ?ws = "windows text sz ?step 0"
  from assms have step: "0 < ?step" and sz: "0 < sz" by simp_all
  have eq: "chunkText text sz overlap = Some (filter (\<lambda>c. c \<noteq> []) (map trim ?ws))"
    using assms(2) by (rule chunkText_windows)
  have len: "length ?ws = nat \<lceil>real (length text) / real_of_int ?step\<rceil>"
    using step by (rule windows_length_ceiling)
  have nth: "?ws ! k = take (nat sz) (drop (k * nat ?step) text) \<and> ?ws ! k \<noteq> []"
    if k: "k < length ?ws" for k
  proof -
    have lt: "int k * ?step < int (length text)"
      using windows_start_in_text [OF k] by simp
    have ge: "0 \<le> int k * ?step" using step by simp
    have "?ws ! k = slice_js text (int k * ?step) (int k * ?step + sz)"
      using windows_nth [OF k] by simp
    moreover have "nat (int k * ?step) = k * nat ?step"
      using step by (simp add: nat_mult_distrib)
    ultimately show ?thesis
      using slice_js_inside [OF ge lt sz] slice_js_nonempty [OF ge lt sz] by simp
  qed
  have "reassemble (nat ?step) ?ws = drop (nat 0) text"
    using assms by (intro reassemble_windows) simp_all
  then have re: "reassemble (nat ?step) ?ws = text"
    by (simp only: nat_0 drop_0)
  have plain: "chunkText text sz overlap = Some ?ws" if ns: "\<forall>u\<in>set text. \<not> isWhiteSpace u"
  proof -
    have "trim w = w \<and> w \<noteq> []" if w: "w \<in> set ?ws" for w
    proof -
      from w obtain k where k: "k < length ?ws" and wk: "w = ?ws ! k"
        by (auto simp: in_set_conv_nth)
      from nth [OF k] have "w \<noteq> []" unfolding wk by (rule conjunct2)
      moreover have "\<forall>u\<in>set w. \<not> isWhiteSpace u"
        using windows_subset [OF w] ns by blast
      ultimately show ?thesis by (simp add: trim_no_space)
    qed
    then have "map trim ?ws = ?ws" and "filter (\<lambda>c. c \<noteq> []) ?ws = ?ws"
      by (simp_all add: map_idI)
    then show ?thesis unfolding eq by (simp only:)
  qed
  from eq len nth re plain show ?thesis by (intro conjI allI impI) blast+
qed

text \<open>
  Claim C4, amended, at a concrete input: \<open>"abcde"\<close> with size 3 and overlap 1.
\<close>

theorem chunkText_windows_reassemble_witness:
  "chunkText [0x61, 0x62, 0x63, 0x64, 0x65] 3 1 = Some [[0x61, 0x62, 0x63], [0x63, 0x64, 0x65], [0x65]] \<and>
   length (windows [0x61, 0x62, 0x63, 0x64, 0x65 :: 16 word] 3 (3 - 1) 0) = 3 \<and>
   reassemble (nat (3 - 1)) (windows [0x61, 0x62, 0x63, 0x64, 0x65 :: 16 word] 3 (3 - 1) 0)
     = [0x61, 0x62, 0x63, 0x64, 0x65]"
proof -
  let ?t = "[0x61, 0x62, 0x63, 0x64, 0x65 :: 16 word]"
  have h: "(0::int) \<le> 1" "(1::int) < 3" by simp_all
  note th = chunkText_windows_reassemble [OF h, of ?t]
  have ns: "\<forall>u\<in>set ?t. \<not> isWhiteSpace u" by (simp add: isWhiteSpace_def)
  have w: "windows ?t 3 (3 - 1) 0 = [[0x61, 0x62, 0x63], [0x63, 0x64, 0x65], [0x65]]"
    by (simp add: windows.simps slice_js_def)
  from th ns have "chunkText ?t 3 1 = Some (windows ?t 3 (3 - 1) 0)" by blast
  moreover from th have "length (windows ?t 3 (3 - 1) 0) = nat \<lceil>real (length ?t) / real_of_int (3 - 1)\<rceil>"
    by blast
  moreover from th have "reassemble (nat (3 - 1)) (windows ?t 3 (3 - 1) 0) = ?t"
    by blast
  ultimately show ?thesis unfolding w by simp
qed

text \<open>
  Claim C4 as stated fails: on \<open>" a"\<close> with size 1 and overlap 0 the chunker returns
  the single chunk \<open>"a"\<close>, one chunk instead of two, and reassembling the chunks
  does not give back the text.
\<close>

theorem chunkText_reassembly_counterexample:
  "chunkText [0x20, 0x61] 1 0 = Some [[0x61]] \<and>
   length (the (chunkText [0x20, 0x61] 1 0)) \<noteq> nat \<lceil>real (length [0x20, 0x61 :: 16 word]) / real_of_int (1 - 0)\<rceil> \<and>
   reassemble (nat (1 - 0)) (the (chunkText [0x20, 0x61] 1 0)) \<noteq> [0x20, 0x61]"
proof -
  have "chunkText [0x20, 0x61] 1 0 = Some [[0x61]]"
    by (simp add: chunkText_windows windows.simps slice_js_def trim_def isWhiteSpace_def)
  then show ?thesis by simp
qed

text \<open>
  Claim C1 (the code departs from it). \<open>chunkText\<close> checks nothing before its loop:
  on the text \<open>"a"\<close> with size 1 and overlap 1 the index never advances and the call
  never returns, where the claim demands a parameter-validation error.
\<close>

theorem chunkText_overlap_not_validated:
  "chunkText [0x61] 1 1 = None"
  by (rule chunkText_stuck) simp_all

text \<open>
  Claim C7, as amended. For \<open>0 \<le> overlap < size\<close> the chunker returns a list whose
  chunks are all non-empty and contain a non-whitespace character, and that list is
  empty exactly when the text is empty or consists of whitespace only: it is returned
  as an ordinary result, no error is raised.
\<close>

theorem chunkText_blank_input:
  assumes "0 \<le> overlap" and "overlap < sz"
  shows "\<exists>cs. chunkText text sz overlap = Some cs \<and>
           (\<forall>c\<in>set cs. c \<noteq> [] \<and> (\<exists>u\<in>set c. \<not> isWhiteSpace u)) \<and>
           (cs = [] \<longleftrightarrow> (\<forall>u\<in>set text. isWhiteSpace u))"
proof -
  let ?ws = "windows text sz (sz - overlap) 0"
  let ?cs = "filter (\<lambda>c. c \<noteq> []) (map trim ?ws)"
  have eq: "chunkText text sz overlap = Some ?cs"
    using assms(2) by (rule chunkText_windows)
  have ne: "c \<noteq> [] \<and> (\<exists>u\<in>set c. \<not> isWhiteSpace u)" if "c \<in> set ?cs" for c
  proof -
    from chunks_ends [OF that] have "c \<noteq> []" "\<not> isWhiteSpace (hd c)" by simp_all
    then show ?thesis using hd_in_set by blast
  qed
  have "?cs = [] \<longleftrightarrow> (\<forall>w\<in>set ?ws. trim w = [])"
    by (auto simp: filter_empty_conv)
  also have "\<dots> \<longleftrightarrow> (\<forall>u\<in>\<Union> (set ` set ?ws). isWhiteSpace u)"
    by (auto simp: trim_eq_Nil)
  also have "\<dots> \<longleftrightarrow> (\<forall>u\<in>set text. isWhiteSpace u)"
    by (simp only: windows_cover [OF assms])
  finally have "?cs = [] \<longleftrightarrow> (\<forall>u\<in>set text. isWhiteSpace u)" .
  with eq ne show ?thesis by blast
qed

text \<open>
  Claim C7, amended, at a concrete input: a text of a space, a tab and a line feed.
\<close>

theorem chunkText_blank_input_witness:
  "chunkText [0x20, 0x9, 0xA] 2 1 = Some []"
proof -
  let ?t = "[0x20, 0x9, 0xA :: 16 word]"
  have h: "(0::int) \<le> 1" "(1::int) < 2" by simp_all
  from chunkText_blank_input [OF h, of ?t]
  obtain cs where cs: "chunkText ?t 2 1 = Some cs"
    and e: "cs = [] \<longleftrightarrow> (\<forall>u\<in>set ?t. isWhiteSpace u)"
    by blast
  have "\<forall>u\<in>set ?t. isWhiteSpace u" by (simp add: isWhiteSpace_def)
  with e have "cs = []" by (simp only:)
  with cs show ?thesis by (simp only:)
qed

text \<open>
  Claim C7 as stated fails: with the default parameters the empty text and a text of
  two spaces both give the empty list as a successful result.
\<close>

theorem chunkText_empty_input_counterexample:
  "chunkText [] 900 100 = Some [] \<and> chunkText [0x20, 0x20] 900 100 = Some []"
  by (simp add: chunkText_windows windows.simps slice_js_def trim_def isWhiteSpace_def)

section \<open>Properties of ingestion\<close>

lemma ingest_runs_loop:
  "chunkText text 900 100 = Some chunks \<Longrightarrow>
   ingest env resourceId text title startOrder sourceUrl w =
     Some (ingest_loop env resourceId title startOrder sourceUrl chunks 1 w)"
  by (simp add: ingest_def)

lemma content_make_rows:
  "map row_content (make_rows ids drawn resourceId title startOrder sourceUrl vectors chunks) = chunks"
proof -
  have "(\<lambda>x. row_content (case x of (idx, content) \<Rightarrow>
            \<lparr>row_id = ids (drawn + idx), row_resourceId = resourceId, row_content = content,
             row_embedding = (if idx < length vectors then Some (vectors ! idx) else None),
             row_title = or_null title,
             row_order = (case startOrder of None \<Rightarrow> None | Some n \<Rightarrow> Some (n + int idx)),
             row_sourceUrl = or_null sourceUrl\<rparr>)) = snd"
    by (rule ext) (simp split: prod.split)
  then show ?thesis
    by (simp add: make_rows_def comp_def)
qed

lemma loop_embed_throws:
  "attempt < maxAttempts \<Longrightarrow> nxt = attempt + 1 \<Longrightarrow> outcome env attempt = EmbedThrows \<Longrightarrow>
   ingest_loop env resourceId title startOrder sourceUrl chunks attempt w =
     ingest_loop env resourceId title startOrder sourceUrl chunks nxt
       (logged [EmbedManyCall, ConsoleError attempt, Sleep (baseDelayMs * 2 ^ (attempt - 1))] w)"
  by (subst ingest_loop.simps) (simp add: try_block_def logged_def)

lemma loop_embed_throws_last:
  "outcome env maxAttempts = EmbedThrows \<Longrightarrow>
   ingest_loop env resourceId title startOrder sourceUrl chunks maxAttempts w =
     (Threw maxAttempts, logged [EmbedManyCall, ConsoleError maxAttempts] w)"
  by (subst ingest_loop.simps) (simp add: try_block_def logged_def)

lemma loop_insert_throws:
  "attempt < maxAttempts \<Longrightarrow> nxt = attempt + 1 \<Longrightarrow>
   outcome env attempt = Embedded vectors (InsertThrows k) \<Longrightarrow>
   ingest_loop env resourceId title startOrder sourceUrl chunks attempt w =
     ingest_loop env resourceId title startOrder sourceUrl chunks nxt
       (w\<lparr>embeddings := embeddings w @
               take k (make_rows (nanoid env) (idsDrawn w) resourceId title startOrder sourceUrl
                         vectors chunks),
           idsDrawn := idsDrawn w + length chunks,
           trace := trace w @ [EmbedManyCall, InsertCall, ConsoleError attempt,
                                Sleep (baseDelayMs * 2 ^ (attempt - 1))]\<rparr>)"
  by (subst ingest_loop.simps, cases w) (simp add: try_block_def logged_def Let_def)

lemma loop_insert_throws_last:
  "outcome env maxAttempts = Embedded vectors (InsertThrows k) \<Longrightarrow>
   ingest_loop env resourceId title startOrder sourceUrl chunks maxAttempts w =
     (Threw maxAttempts,
      w\<lparr>embeddings := embeddings w @
               take k (make_rows (nanoid env) (idsDrawn w) resourceId title startOrder sourceUrl
                         vectors chunks),
        idsDrawn := idsDrawn w + length chunks,
        trace := trace w @ [EmbedManyCall, InsertCall, ConsoleError maxAttempts]\<rparr>)"
  by (subst ingest_loop.simps, cases w) (simp add: try_block_def logged_def Let_def)

lemma loop_insert_ok:
  "attempt \<le> maxAttempts \<Longrightarrow> outcome env attempt = Embedded vectors InsertOk \<Longrightarrow>
   ingest_loop env resourceId title startOrder sourceUrl chunks attempt w =
     (Returned True (length chunks),
      w\<lparr>embeddings := embeddings w @
               make_rows (nanoid env) (idsDrawn w) resourceId title startOrder sourceUrl
                 vectors chunks,
        idsDrawn := idsDrawn w + length chunks,
        trace := trace w @ [EmbedManyCall, InsertCall]\<rparr>)"
  by (subst ingest_loop.simps, cases w) (simp add: try_block_def logged_def Let_def)

lemma upt_attempts:
  "[Suc 0..<Suc 0] = []" "[Suc 0..<2] = [Suc 0]" "[Suc 0..<3] = [Suc 0, 2]"
  by (simp_all add: upt_rec numeral_2_eq_2 numeral_3_eq_3)

text \<open>
  Claim C5. When \<open>embedMany\<close> throws in all three attempts, \<open>ingest\<close> makes exactly
  three calls, sleeps 1000 ms after the first and 2000 ms after the second failure, and
  throws the error that names 3 attempts; the table is unchanged. When \<open>embedMany\<close>
  throws in the attempts before attempt \<open>k \<le> 3\<close> and attempt \<open>k\<close> succeeds, \<open>ingest\<close>
  returns \<open>{success: true, chunksInserted}\<close> after one insert call, and the table has
  gained exactly one row per chunk, in chunk order.
\<close>

theorem ingest_embedding_retry:
  assumes "chunkText text 900 100 = Some chunks"
  shows
    "(outcome env 1 = EmbedThrows \<and> outcome env 2 = EmbedThrows \<and> outcome env 3 = EmbedThrows \<longrightarrow>
        ingest env resourceId text title startOrder sourceUrl w =
          Some (Threw 3,
                w\<lparr>trace := trace w @
                   [EmbedManyCall, ConsoleError 1, Sleep 1000,
                    EmbedManyCall, ConsoleError 2, Sleep 2000,
                    EmbedManyCall, ConsoleError 3]\<rparr>)) \<and>
     (\<forall>k vectors.
        1 \<le> k \<and> k \<le> 3 \<and> (\<forall>a. 1 \<le> a \<and> a < k \<longrightarrow> outcome env a = EmbedThrows) \<and>
        outcome env k = Embedded vectors InsertOk \<longrightarrow>
        ingest env resourceId text title startOrder sourceUrl w =
          Some (Returned True (length chunks),
                w\<lparr>embeddings := embeddings w @
                       make_rows (nanoid env) (idsDrawn w) resourceId title startOrder sourceUrl
                         vectors chunks,
                  idsDrawn := idsDrawn w + length chunks,
                  trace := trace w @
                    concat (map (\<lambda>a. [EmbedManyCall, ConsoleError a, Sleep (1000 * 2 ^ (a - 1))])
                              [1..<k]) @
                    [EmbedManyCall, InsertCall]\<rparr>) \<and>
        map row_content
          (make_rows (nanoid env) (idsDrawn w) resourceId title startOrder sourceUrl vectors chunks)
          = chunks)"
proof (intro conjI allI impI)
  let ?L = "ingest_loop env resourceId title startOrder sourceUrl chunks"
  assume e: "outcome env 1 = EmbedThrows \<and> outcome env 2 = EmbedThrows \<and> outcome env 3 = EmbedThrows"
  have "?L 1 w = ?L 2 (logged [EmbedManyCall, ConsoleError 1, Sleep 1000] w)"
    by (subst loop_embed_throws [of 1 2]) (use e in \<open>simp_all add: maxAttempts_def baseDelayMs_def\<close>)
  also have "\<dots> = ?L 3 (logged [EmbedManyCall, ConsoleError 2, Sleep 2000]
                          (logged [EmbedManyCall, ConsoleError 1, Sleep 1000] w))"
    by (subst loop_embed_throws [of 2 3]) (use e in \<open>simp_all add: maxAttempts_def baseDelayMs_def\<close>)
  also have "\<dots> = (Threw 3, logged [EmbedManyCall, ConsoleError 3]
                          (logged [EmbedManyCall, ConsoleError 2, Sleep 2000]
                             (logged [EmbedManyCall, ConsoleError 1, Sleep 1000] w)))"
    using loop_embed_throws_last [of env] e by (simp add: maxAttempts_def)
  finally show "ingest env resourceId text title startOrder sourceUrl w =
          Some (Threw 3,
                w\<lparr>trace := trace w @
                   [EmbedManyCall, ConsoleError 1, Sleep 1000,
                    EmbedManyCall, ConsoleError 2, Sleep 2000,
                    EmbedManyCall, ConsoleError 3]\<rparr>)"
    by (simp add: ingest_runs_loop [OF assms] logged_def)
next
  fix k vectors
  let ?L = "ingest_loop env resourceId title startOrder sourceUrl chunks"
  assume a: "1 \<le> k \<and> k \<le> 3 \<and> (\<forall>a. 1 \<le> a \<and> a < k \<longrightarrow> outcome env a = EmbedThrows) \<and>
        outcome env k = Embedded vectors InsertOk"
  let ?rows = "make_rows (nanoid env) (idsDrawn w) resourceId title startOrder sourceUrl vectors chunks"
  from a consider "k = 1" | "k = 2" | "k = 3" by force
  then show "ingest env resourceId text title startOrder sourceUrl w =
          Some (Returned True (length chunks),
                w\<lparr>embeddings := embeddings w @ ?rows,
                  idsDrawn := idsDrawn w + length chunks,
                  trace := trace w @
                    concat (map (\<lambda>a. [EmbedManyCall, ConsoleError a, Sleep (1000 * 2 ^ (a - 1))])
                              [1..<k]) @
                    [EmbedManyCall, InsertCall]\<rparr>)"
  proof cases
    case 1
    with a have ok: "outcome env 1 = Embedded vectors InsertOk" by simp
    have "?L 1 w = (Returned True (length chunks),
        w\<lparr>embeddings := embeddings w @ ?rows, idsDrawn := idsDrawn w + length chunks,
          trace := trace w @ [EmbedManyCall, InsertCall]\<rparr>)"
      by (subst loop_insert_ok [of 1 env vectors]) (use ok in \<open>simp_all add: maxAttempts_def\<close>)
    with 1 show ?thesis
      by (simp add: ingest_runs_loop [OF assms])
  next
    case 2
    with a have e1: "outcome env 1 = EmbedThrows" and ok: "outcome env 2 = Embedded vectors InsertOk"
      by simp_all
    let ?w1 = "logged [EmbedManyCall, ConsoleError 1, Sleep 1000] w"
    have "?L 1 w = ?L 2 ?w1"
      by (subst loop_embed_throws [of 1 2]) (use e1 in \<open>simp_all add: maxAttempts_def baseDelayMs_def\<close>)
    also have "\<dots> = (Returned True (length chunks),
        ?w1\<lparr>embeddings := embeddings ?w1 @
                 make_rows (nanoid env) (idsDrawn ?w1) resourceId title startOrder sourceUrl
                   vectors chunks,
             idsDrawn := idsDrawn ?w1 + length chunks,
             trace := trace ?w1 @ [EmbedManyCall, InsertCall]\<rparr>)"
      by (subst loop_insert_ok [of 2 env vectors]) (use ok in \<open>simp_all add: maxAttempts_def\<close>)
    finally show ?thesis using 2
      by (simp add: ingest_runs_loop [OF assms] logged_def upt_attempts)
  next
    case 3
    with a have e1: "outcome env 1 = EmbedThrows" and e2: "outcome env 2 = EmbedThrows"
        and ok: "outcome env 3 = Embedded vectors InsertOk"
      by simp_all
    let ?w1 = "logged [EmbedManyCall, ConsoleError 1, Sleep 1000] w"
    let ?w2 = "logged [EmbedManyCall, ConsoleError 2, Sleep 2000] ?w1"
    have "?L 1 w = ?L 2 ?w1"
      by (subst loop_embed_throws [of 1 2]) (use e1 in \<open>simp_all add: maxAttempts_def baseDelayMs_def\<close>)
    also have "\<dots> = ?L 3 ?w2"
      by (subst loop_embed_throws [of 2 3]) (use e2 in \<open>simp_all add: maxAttempts_def baseDelayMs_def\<close>)
    also have "\<dots> = (Returned True (length chunks),
        ?w2\<lparr>embeddings := embeddings ?w2 @
                 make_rows (nanoid env) (idsDrawn ?w2) resourceId title startOrder sourceUrl
                   vectors chunks,
             idsDrawn := idsDrawn ?w2 + length chunks,
             trace := trace ?w2 @ [EmbedManyCall, InsertCall]\<rparr>)"
      by (subst loop_insert_ok [of 3 env vectors]) (use ok in \<open>simp_all add: maxAttempts_def\<close>)
    finally show ?thesis using 3
      by (simp add: ingest_runs_loop [OF assms] logged_def upt_attempts)
  qed
next
  fix k vectors
  show "map row_content
          (make_rows (nanoid env) (idsDrawn w) resourceId title startOrder sourceUrl vectors chunks)
          = chunks"
    by (rule content_make_rows)
qed

lemma chunkText_ab: "chunkText [0x61, 0x62] 900 100 = Some [[0x61, 0x62]]"
  by (simp add: chunkText_windows windows.simps slice_js_def trim_def isWhiteSpace_def)

text \<open>
  Claim C5 at a concrete run: the embedding service fails twice and succeeds on the
  third attempt, for the text \<open>"ab"\<close>.
\<close>

theorem ingest_embedding_retry_witness:
  "ingest \<lparr>outcome = (\<lambda>a. if a < 3 then EmbedThrows else Embedded [7::nat] InsertOk),
           nanoid = (\<lambda>n. [of_nat n])\<rparr>
     [0x72] [0x61, 0x62] None (Some 5) None \<lparr>embeddings = [], idsDrawn = 0, trace = []\<rparr>
   = Some (Returned True 1,
       \<lparr>embeddings = [\<lparr>row_id = [0], row_resourceId = [0x72], row_content = [0x61, 0x62],
                        row_embedding = Some 7, row_title = None, row_order = Some 5,
                        row_sourceUrl = None\<rparr>],
        idsDrawn = 1,
        trace = [EmbedManyCall, ConsoleError 1, Sleep 1000,
                 EmbedManyCall, ConsoleError 2, Sleep 2000,
                 EmbedManyCall, InsertCall]\<rparr>)"
proof -
  let ?env = "\<lparr>outcome = (\<lambda>a. if a < 3 then EmbedThrows else Embedded [7::nat] InsertOk),
           nanoid = (\<lambda>n. [of_nat n])\<rparr>"
  let ?w = "\<lparr>embeddings = [] :: nat embedding_row list, idsDrawn = 0, trace = []\<rparr>"
  have h: "1 \<le> (3::nat) \<and> (3::nat) \<le> 3 \<and>
      (\<forall>a. 1 \<le> a \<and> a < 3 \<longrightarrow> outcome ?env a = EmbedThrows) \<and>
      outcome ?env 3 = Embedded [7] InsertOk"
    by simp
  from ingest_embedding_retry [OF chunkText_ab, of ?env "[0x72]" None "Some 5" None ?w]
  have "\<forall>k vectors.
        1 \<le> k \<and> k \<le> 3 \<and> (\<forall>a. 1 \<le> a \<and> a < k \<longrightarrow> outcome ?env a = EmbedThrows) \<and>
        outcome ?env k = Embedded vectors InsertOk \<longrightarrow>
        ingest ?env [0x72] [0x61, 0x62] None (Some 5) None ?w =
          Some (Returned True (length [[0x61, 0x62 :: 16 word]]),
                ?w\<lparr>embeddings := embeddings ?w @
                       make_rows (nanoid ?env) (idsDrawn ?w) [0x72] None (Some 5) None
                         vectors [[0x61, 0x62]],
                  idsDrawn := idsDrawn ?w + length [[0x61, 0x62 :: 16 word]],
                  trace := trace ?w @
                    concat (map (\<lambda>a. [EmbedManyCall, ConsoleError a, Sleep (1000 * 2 ^ (a - 1))])
                              [1..<k]) @
                    [EmbedManyCall, InsertCall]\<rparr>) \<and>
        map row_content
          (make_rows (nanoid ?env) (idsDrawn ?w) [0x72] None (Some 5) None vectors [[0x61, 0x62]])
          = [[0x61, 0x62]]"
    by (rule conjunct2)
  from this [rule_format, OF h] show ?thesis
    by (simp add: make_rows_def or_null_def upt_attempts)
qed

lemma loop_insert_throws_trace:
  assumes "attempt < maxAttempts" and "nxt = attempt + 1"
    and "outcome env attempt = Embedded vectors (InsertThrows j)"
  shows "\<exists>w1. ingest_loop env resourceId title startOrder sourceUrl chunks attempt w =
               ingest_loop env resourceId title startOrder sourceUrl chunks nxt w1 \<and>
             trace w1 = trace w @ [EmbedManyCall, InsertCall, ConsoleError attempt,
                                   Sleep (baseDelayMs * 2 ^ (attempt - 1))] \<and>
             embeddings w1 = embeddings w @
               take j (make_rows (nanoid env) (idsDrawn w) resourceId title startOrder sourceUrl
                         vectors chunks)"
proof -
  let ?w1 = "w\<lparr>embeddings := embeddings w @
               take j (make_rows (nanoid env) (idsDrawn w) resourceId title startOrder sourceUrl
                         vectors chunks),
           idsDrawn := idsDrawn w + length chunks,
           trace := trace w @ [EmbedManyCall, InsertCall, ConsoleError attempt,
                                Sleep (baseDelayMs * 2 ^ (attempt - 1))]\<rparr>"
  have "ingest_loop env resourceId title startOrder sourceUrl chunks attempt w =
        ingest_loop env resourceId title startOrder sourceUrl chunks nxt ?w1"
    by (rule loop_insert_throws [OF assms])
  moreover have "trace ?w1 = trace w @ [EmbedManyCall, InsertCall, ConsoleError attempt,
                                   Sleep (baseDelayMs * 2 ^ (attempt - 1))]"
    by simp
  moreover have "embeddings ?w1 = embeddings w @
               take j (make_rows (nanoid env) (idsDrawn w) resourceId title startOrder sourceUrl
                         vectors chunks)"
    by simp
  ultimately show ?thesis by blast
qed

lemma loop_insert_throws_last_trace:
  assumes "outcome env 3 = Embedded vectors (InsertThrows j)"
  shows "\<exists>w3. ingest_loop env resourceId title startOrder sourceUrl chunks 3 w = (Threw 3, w3) \<and>
             trace w3 = trace w @ [EmbedManyCall, InsertCall, ConsoleError 3] \<and>
             embeddings w3 = embeddings w @
               take j (make_rows (nanoid env) (idsDrawn w) resourceId title startOrder sourceUrl
                         vectors chunks)"
proof -
  from assms have "outcome env maxAttempts = Embedded vectors (InsertThrows j)"
    by (simp add: maxAttempts_def)
  from loop_insert_throws_last [OF this, of resourceId title startOrder sourceUrl chunks w]
  show ?thesis by (simp add: maxAttempts_def)
qed

lemma loop_insert_ok_trace:
  assumes "attempt \<le> 3" and "outcome env attempt = Embedded vectors InsertOk"
  shows "\<exists>w'. ingest_loop env resourceId title startOrder sourceUrl chunks attempt w =
               (Returned True (length chunks), w') \<and>
             trace w' = trace w @ [EmbedManyCall, InsertCall] \<and>
             embeddings w' = embeddings w @
               make_rows (nanoid env) (idsDrawn w) resourceId title startOrder sourceUrl
                 vectors chunks"
proof -
  from assms(1) have "attempt \<le> maxAttempts" by (simp add: maxAttempts_def)
  from loop_insert_ok [OF this assms(2), of resourceId title startOrder sourceUrl chunks w]
  show ?thesis by simp
qed

lemma loop_insert_throws_next:
  assumes "outcome env attempt = Embedded vectors (InsertThrows j)"
    and "attempt = 1 \<and> nxt = 2 \<and> d = 1000 \<or> attempt = 2 \<and> nxt = 3 \<and> d = 2000"
  shows "\<exists>w1. ingest_loop env resourceId title startOrder sourceUrl chunks attempt w =
               ingest_loop env resourceId title startOrder sourceUrl chunks nxt w1 \<and>
             trace w1 = trace w @ [EmbedManyCall, InsertCall, ConsoleError attempt, Sleep d] \<and>
             embeddings w1 = embeddings w @
               take j (make_rows (nanoid env) (idsDrawn w) resourceId title startOrder sourceUrl
                         vectors chunks)"
proof -
  from assms(2) have c: "attempt < maxAttempts" "nxt = attempt + 1"
    and d: "baseDelayMs * 2 ^ (attempt - 1) = d"
    by (auto simp: maxAttempts_def baseDelayMs_def)
  from loop_insert_throws_trace [OF c assms(1), of resourceId title startOrder sourceUrl chunks w]
  show ?thesis unfolding d .
qed

text \<open>
  Claim C6, as amended. The insert sits in the same \<open>try\<close> block as \<open>embedMany\<close>, so
  a storage error is handled like an embedding error: it is logged and, unless it was
  the third attempt, the loop sleeps and runs a whole new attempt, with a new
  \<open>embedMany\<close> call and a new insert call. A storage error in each of the three
  attempts ends in the error naming 3 attempts, after three insert calls; a storage
  error in every attempt before attempt \<open>k \<le> 3\<close> followed by a successful attempt
  \<open>k\<close> ends in success, after \<open>k\<close> insert calls. The storage error itself never
  reaches the caller.
\<close>

theorem ingest_storage_error_retried:
  assumes "chunkText text 900 100 = Some chunks"
  shows
    "((\<forall>a. 1 \<le> a \<and> a \<le> 3 \<longrightarrow> (\<exists>vectors j. outcome env a = Embedded vectors (InsertThrows j))) \<longrightarrow>
        (\<exists>w'. ingest env resourceId text title startOrder sourceUrl w = Some (Threw 3, w') \<and>
              trace w' = trace w @
                [EmbedManyCall, InsertCall, ConsoleError 1, Sleep 1000,
                 EmbedManyCall, InsertCall, ConsoleError 2, Sleep 2000,
                 EmbedManyCall, InsertCall, ConsoleError 3])) \<and>
     (\<forall>k vectors.
        1 \<le> k \<and> k \<le> 3 \<and>
        (\<forall>a. 1 \<le> a \<and> a < k \<longrightarrow> (\<exists>vectors j. outcome env a = Embedded vectors (InsertThrows j))) \<and>
        outcome env k = Embedded vectors InsertOk \<longrightarrow>
        (\<exists>w'. ingest env resourceId text title startOrder sourceUrl w =
                Some (Returned True (length chunks), w') \<and>
              trace w' = trace w @
                concat (map (\<lambda>a. [EmbedManyCall, InsertCall, ConsoleError a,
                                  Sleep (1000 * 2 ^ (a - 1))]) [1..<k]) @
                [EmbedManyCall, InsertCall]))"
proof (intro conjI allI impI)
  let ?L = "ingest_loop env resourceId title startOrder sourceUrl chunks"
  assume f: "\<forall>a. 1 \<le> a \<and> a \<le> 3 \<longrightarrow> (\<exists>vectors j. outcome env a = Embedded vectors (InsertThrows j))"
  from f obtain v1 j1 where o1: "outcome env 1 = Embedded v1 (InsertThrows j1)" by force
  from f obtain v2 j2 where o2: "outcome env 2 = Embedded v2 (InsertThrows j2)" by force
  from f obtain v3 j3 where o3: "outcome env 3 = Embedded v3 (InsertThrows j3)" by force
  from loop_insert_throws_next [OF o1, of 2 1000] obtain w1 where
    s1: "?L 1 w = ?L 2 w1" and
    t1: "trace w1 = trace w @ [EmbedManyCall, InsertCall, ConsoleError 1, Sleep 1000]"
    by blast
  from loop_insert_throws_next [OF o2, of 3 2000] obtain w2 where
    s2: "?L 2 w1 = ?L 3 w2" and
    t2: "trace w2 = trace w1 @ [EmbedManyCall, InsertCall, ConsoleError 2, Sleep 2000]"
    by blast
  from loop_insert_throws_last_trace [OF o3] obtain w3 where
    s3: "?L 3 w2 = (Threw 3, w3)" and
    t3: "trace w3 = trace w2 @ [EmbedManyCall, InsertCall, ConsoleError 3]"
    by blast
  have "ingest env resourceId text title startOrder sourceUrl w = Some (Threw 3, w3)"
    by (simp only: ingest_runs_loop [OF assms] s1 s2 s3)
  moreover have "trace w3 = trace w @
                [EmbedManyCall, InsertCall, ConsoleError 1, Sleep 1000,
                 EmbedManyCall, InsertCall, ConsoleError 2, Sleep 2000,
                 EmbedManyCall, InsertCall, ConsoleError 3]"
    by (simp add: t1 t2 t3)
  ultimately show "\<exists>w'. ingest env resourceId text title startOrder sourceUrl w = Some (Threw 3, w') \<and>
              trace w' = trace w @
                [EmbedManyCall, InsertCall, ConsoleError 1, Sleep 1000,
                 EmbedManyCall, InsertCall, ConsoleError 2, Sleep 2000,
                 EmbedManyCall, InsertCall, ConsoleError 3]"
    by blast
next
  fix k vectors
  let ?L = "ingest_loop env resourceId title startOrder sourceUrl chunks"
  assume a: "1 \<le> k \<and> k \<le> 3 \<and>
        (\<forall>a. 1 \<le> a \<and> a < k \<longrightarrow> (\<exists>vectors j. outcome env a = Embedded vectors (InsertThrows j))) \<and>
        outcome env k = Embedded vectors InsertOk"
  from a consider "k = 1" | "k = 2" | "k = 3" by force
  then show "\<exists>w'. ingest env resourceId text title startOrder sourceUrl w =
                Some (Returned True (length chunks), w') \<and>
              trace w' = trace w @
                concat (map (\<lambda>a. [EmbedManyCall, InsertCall, ConsoleError a,
                                  Sleep (1000 * 2 ^ (a - 1))]) [1..<k]) @
                [EmbedManyCall, InsertCall]"
  proof cases
    case 1
    with a have ok: "outcome env 1 = Embedded vectors InsertOk" by simp
    from loop_insert_ok_trace [OF _ ok] obtain w' where
      s1: "?L 1 w = (Returned True (length chunks), w')" and
      t1: "trace w' = trace w @ [EmbedManyCall, InsertCall]"
      by force
    have "ingest env resourceId text title startOrder sourceUrl w =
        Some (Returned True (length chunks), w')"
      by (simp only: ingest_runs_loop [OF assms] s1)
    with 1 t1 show ?thesis
      by (simp add: upt_attempts)
  next
    case 2
    with a obtain v1 j1 where o1: "outcome env 1 = Embedded v1 (InsertThrows j1)" by force
    from 2 a have ok: "outcome env 2 = Embedded vectors InsertOk" by simp
    from loop_insert_throws_next [OF o1, of 2 1000] obtain w1 where
      s1: "?L 1 w = ?L 2 w1" and
      t1: "trace w1 = trace w @ [EmbedManyCall, InsertCall, ConsoleError 1, Sleep 1000]"
      by blast
    from loop_insert_ok_trace [OF _ ok] obtain w' where
      s2: "?L 2 w1 = (Returned True (length chunks), w')" and
      t2: "trace w' = trace w1 @ [EmbedManyCall, InsertCall]"
      by force
    have "ingest env resourceId text title startOrder sourceUrl w =
        Some (Returned True (length chunks), w')"
      by (simp only: ingest_runs_loop [OF assms] s1 s2)
    with 2 t1 t2 show ?thesis
      by (simp add: upt_attempts)
  next
    case 3
    with a obtain v1 j1 where o1: "outcome env 1 = Embedded v1 (InsertThrows j1)" by force
    from 3 a obtain v2 j2 where o2: "outcome env 2 = Embedded v2 (InsertThrows j2)" by force
    from 3 a have ok: "outcome env 3 = Embedded vectors InsertOk" by simp
    from loop_insert_throws_next [OF o1, of 2 1000] obtain w1 where
      s1: "?L 1 w = ?L 2 w1" and
      t1: "trace w1 = trace w @ [EmbedManyCall, InsertCall, ConsoleError 1, Sleep 1000]"
      by blast
    from loop_insert_throws_next [OF o2, of 3 2000] obtain w2 where
      s2: "?L 2 w1 = ?L 3 w2" and
      t2: "trace w2 = trace w1 @ [EmbedManyCall, InsertCall, ConsoleError 2, Sleep 2000]"
      by blast
    from loop_insert_ok_trace [OF _ ok] obtain w' where
      s3: "?L 3 w2 = (Returned True (length chunks), w')" and
      t3: "trace w' = trace w2 @ [EmbedManyCall, InsertCall]"
      by force
    have "ingest env resourceId text title startOrder sourceUrl w =
        Some (Returned True (length chunks), w')"
      by (simp only: ingest_runs_loop [OF assms] s1 s2 s3)
    with 3 t1 t2 t3 show ?thesis
      by (simp add: upt_attempts)
  qed
qed

lemma chunkText_no_space:
  assumes "0 \<le> overlap" and "overlap < sz" and ns: "\<forall>u\<in>set text. \<not> isWhiteSpace u"
  shows "chunkText text sz overlap = Some (windows text sz (sz - overlap) 0)"
proof -
  let ?ws = "windows text sz (sz - overlap) 0"
  from assms have sz: "0 < sz" by simp
  have "trim w = w \<and> w \<noteq> []" if w: "w \<in> set ?ws" for w
  proof -
    from w obtain k where k: "k < length ?ws" and wk: "w = ?ws ! k"
      by (auto simp: in_set_conv_nth)
    have lt: "int k * (sz - overlap) < int (length text)"
      using windows_start_in_text [OF k] by simp
    have ge: "0 \<le> int k * (sz - overlap)" using assms by simp
    have "w = slice_js text (int k * (sz - overlap)) (int k * (sz - overlap) + sz)"
      unfolding wk using windows_nth [OF k] by simp
    then have "w \<noteq> []"
      using slice_js_nonempty [OF ge lt sz] by simp
    moreover have "\<forall>u\<in>set w. \<not> isWhiteSpace u"
      using windows_subset [OF w] ns by blast
    ultimately show ?thesis by (simp add: trim_no_space)
  qed
  then have "map trim ?ws = ?ws" and "filter (\<lambda>c. c \<noteq> []) ?ws = ?ws"
    by (simp_all add: map_idI)
  then show ?thesis
    using chunkText_windows [OF assms(2), of "text"] by (simp only:)
qed

lemma chunkText_two_chunks:
  assumes "length t = 801" and "\<forall>u\<in>set t. \<not> isWhiteSpace u"
  shows "chunkText t 900 100 = Some [t, drop 800 t]"
proof -
  have "windows t 900 (900 - 100) 0 = [t, drop 800 t]"
    using assms(1) by (simp add: windows.simps slice_js_def)
  with chunkText_no_space [of 100 900 t] assms(2) show ?thesis by simp
qed

lemma loop_embed_throws_next:
  assumes "outcome env attempt = EmbedThrows"
    and "attempt = 1 \<and> nxt = 2 \<or> attempt = 2 \<and> nxt = 3"
  shows "\<exists>w1. ingest_loop env resourceId title startOrder sourceUrl chunks attempt w =
               ingest_loop env resourceId title startOrder sourceUrl chunks nxt w1 \<and>
             embeddings w1 = embeddings w"
proof -
  from assms(2) have c: "attempt < maxAttempts" "nxt = attempt + 1"
    by (auto simp: maxAttempts_def)
  have "embeddings (logged es w) = embeddings w" for es
    by (simp add: logged_def)
  with loop_embed_throws [OF c assms(1), of resourceId title startOrder sourceUrl chunks w]
  show ?thesis by blast
qed

lemma attempt_atomic:
  assumes atomic: "\<forall>vectors j. outcome env attempt = Embedded vectors (InsertThrows j) \<longrightarrow> j = 0"
    and att: "attempt = 1 \<and> nxt = 2 \<or> attempt = 2 \<and> nxt = 3"
  shows "(\<exists>w' rows. ingest_loop env resourceId title startOrder sourceUrl chunks attempt w =
             (Returned True (length chunks), w') \<and>
             embeddings w' = embeddings w @ rows \<and> map row_content rows = chunks) \<or>
         (\<exists>w1. ingest_loop env resourceId title startOrder sourceUrl chunks attempt w =
             ingest_loop env resourceId title startOrder sourceUrl chunks nxt w1 \<and>
             embeddings w1 = embeddings w)"
proof (cases "outcome env attempt")
  case EmbedThrows
  from loop_embed_throws_next [OF this att] show ?thesis by blast
next
  case (Embedded vectors ins)
  show ?thesis
  proof (cases ins)
    case InsertOk
    from att have "attempt \<le> 3" by auto
    from loop_insert_ok_trace [OF this Embedded [unfolded InsertOk]] content_make_rows
    show ?thesis by blast
  next
    case (InsertThrows j)
    with Embedded atomic have j: "j = 0" by simp
    from att have "attempt = 1 \<and> nxt = 2 \<and> (1000 * 2 ^ (attempt - 1) :: nat) = 1000 \<or>
        attempt = 2 \<and> nxt = 3 \<and> (1000 * 2 ^ (attempt - 1) :: nat) = 2000"
      by auto
    from loop_insert_throws_next [OF Embedded [unfolded InsertThrows j] this,
        of resourceId title startOrder sourceUrl chunks w]
    show ?thesis by auto
  qed
qed

lemma last_attempt_atomic:
  assumes atomic: "\<forall>vectors j. outcome env 3 = Embedded vectors (InsertThrows j) \<longrightarrow> j = 0"
  shows "(\<exists>w' rows. ingest_loop env resourceId title startOrder sourceUrl chunks 3 w =
             (Returned True (length chunks), w') \<and>
             embeddings w' = embeddings w @ rows \<and> map row_content rows = chunks) \<or>
         (\<exists>w3. ingest_loop env resourceId title startOrder sourceUrl chunks 3 w = (Threw 3, w3) \<and>
             embeddings w3 = embeddings w)"
proof (cases "outcome env 3")
  case EmbedThrows
  then have "outcome env maxAttempts = EmbedThrows" by (simp add: maxAttempts_def)
  from loop_embed_throws_last [OF this, of resourceId title startOrder sourceUrl chunks w]
  show ?thesis by (simp add: maxAttempts_def logged_def)
next
  case (Embedded vectors ins)
  show ?thesis
  proof (cases ins)
    case InsertOk
    from loop_insert_ok_trace [OF _ Embedded [unfolded InsertOk]] content_make_rows
    show ?thesis by blast
  next
    case (InsertThrows j)
    with Embedded atomic have j: "j = 0" by simp
    from loop_insert_throws_last_trace [OF Embedded [unfolded InsertThrows j],
        of resourceId title startOrder sourceUrl chunks w]
    show ?thesis by auto
  qed
qed

text \<open>
  Claim C2, as amended. \<open>ingest\<close> writes all rows of an attempt with one insert call and
  has no rollback of its own. When an insert that throws has stored no row, the call
  is all or nothing: either it returns
  success and the table has gained exactly one row per chunk, in chunk order, or it
  throws and the table is as it was before the call.
\<close>

theorem ingest_all_or_nothing:
  assumes "chunkText text 900 100 = Some chunks"
    and atomic: "\<forall>a vectors j.
            1 \<le> a \<and> a \<le> 3 \<and> outcome env a = Embedded vectors (InsertThrows j) \<longrightarrow> j = 0"
  shows "\<exists>r w'. ingest env resourceId text title startOrder sourceUrl w = Some (r, w') \<and>
           (r = Returned True (length chunks) \<and>
              (\<exists>rows. embeddings w' = embeddings w @ rows \<and> map row_content rows = chunks) \<or>
            r = Threw 3 \<and> embeddings w' = embeddings w)"
proof -
  let ?L = "ingest_loop env resourceId title startOrder sourceUrl chunks"
  let ?goal = "\<lambda>res. \<exists>r w'. res = (r, w') \<and>
           (r = Returned True (length chunks) \<and>
              (\<exists>rows. embeddings w' = embeddings w @ rows \<and> map row_content rows = chunks) \<or>
            r = Threw 3 \<and> embeddings w' = embeddings w)"
  have a1: "\<forall>vectors j. outcome env 1 = Embedded vectors (InsertThrows j) \<longrightarrow> j = 0"
    and a2: "\<forall>vectors j. outcome env 2 = Embedded vectors (InsertThrows j) \<longrightarrow> j = 0"
    and a3: "\<forall>vectors j. outcome env 3 = Embedded vectors (InsertThrows j) \<longrightarrow> j = 0"
    using atomic [rule_format, of 1] atomic [rule_format, of 2] atomic [rule_format, of 3]
    by simp_all
  have third: "?goal (?L 3 w2)" if "embeddings w2 = embeddings w" for w2
    using last_attempt_atomic [OF a3, of resourceId title startOrder sourceUrl chunks w2] that
    by auto
  have second: "?goal (?L 2 w1)" if e: "embeddings w1 = embeddings w" for w1
  proof -
    from attempt_atomic [OF a2, of 3 resourceId title startOrder sourceUrl chunks w1]
    consider w' rows where "?L 2 w1 = (Returned True (length chunks), w')"
        "embeddings w' = embeddings w1 @ rows" "map row_content rows = chunks"
      | w2 where "?L 2 w1 = ?L 3 w2" "embeddings w2 = embeddings w1"
      by auto
    then show ?thesis
    proof cases
      case 1
      with e show ?thesis by auto
    next
      case 2
      with e third [of w2] show ?thesis by simp
    qed
  qed
  have first: "?goal (?L 1 w)"
  proof -
    from attempt_atomic [OF a1, of 2 resourceId title startOrder sourceUrl chunks w]
    consider w' rows where "?L 1 w = (Returned True (length chunks), w')"
        "embeddings w' = embeddings w @ rows" "map row_content rows = chunks"
      | w1 where "?L 1 w = ?L 2 w1" "embeddings w1 = embeddings w"
      by auto
    then show ?thesis
    proof cases
      case 1
      then show ?thesis by auto
    next
      case 2
      with second [of w1] show ?thesis by simp
    qed
  qed
  then show ?thesis
    by (simp add: ingest_runs_loop [OF assms(1)])
qed

text \<open>
  Claim C6, amended, at a concrete run: the insert throws in all three attempts.
\<close>

theorem ingest_storage_error_retried_witness:
  "fst (the (ingest \<lparr>outcome = (\<lambda>a. Embedded [7::nat] (InsertThrows 0)), nanoid = (\<lambda>n. [of_nat n])\<rparr>
               [0x72] [0x61, 0x62] None None None \<lparr>embeddings = [], idsDrawn = 0, trace = []\<rparr>))
     = Threw 3 \<and>
   trace (snd (the (ingest \<lparr>outcome = (\<lambda>a. Embedded [7::nat] (InsertThrows 0)), nanoid = (\<lambda>n. [of_nat n])\<rparr>
               [0x72] [0x61, 0x62] None None None \<lparr>embeddings = [], idsDrawn = 0, trace = []\<rparr>)))
     = [EmbedManyCall, InsertCall, ConsoleError 1, Sleep 1000,
        EmbedManyCall, InsertCall, ConsoleError 2, Sleep 2000,
        EmbedManyCall, InsertCall, ConsoleError 3]"
proof -
  let ?env = "\<lparr>outcome = (\<lambda>a. Embedded [7::nat] (InsertThrows 0)), nanoid = (\<lambda>n. [of_nat n])\<rparr>"
  let ?w = "\<lparr>embeddings = [] :: nat embedding_row list, idsDrawn = 0, trace = []\<rparr>"
  have h: "\<forall>a. 1 \<le> a \<and> a \<le> 3 \<longrightarrow> (\<exists>vectors j. outcome ?env a = Embedded vectors (InsertThrows j))"
    by simp
  from ingest_storage_error_retried [OF chunkText_ab, of ?env "[0x72]" None None None ?w]
  have "(\<forall>a. 1 \<le> a \<and> a \<le> 3 \<longrightarrow> (\<exists>vectors j. outcome ?env a = Embedded vectors (InsertThrows j))) \<longrightarrow>
        (\<exists>w'. ingest ?env [0x72] [0x61, 0x62] None None None ?w = Some (Threw 3, w') \<and>
              trace w' = trace ?w @
                [EmbedManyCall, InsertCall, ConsoleError 1, Sleep 1000,
                 EmbedManyCall, InsertCall, ConsoleError 2, Sleep 2000,
                 EmbedManyCall, InsertCall, ConsoleError 3])"
    by (rule conjunct1)
  from this [THEN mp, OF h] obtain w' where
    "ingest ?env [0x72] [0x61, 0x62] None None None ?w = Some (Threw 3, w')"
    "trace w' = trace ?w @
                [EmbedManyCall, InsertCall, ConsoleError 1, Sleep 1000,
                 EmbedManyCall, InsertCall, ConsoleError 2, Sleep 2000,
                 EmbedManyCall, InsertCall, ConsoleError 3]"
    by blast
  then show ?thesis by simp
qed

text \<open>
  Claim C6 as stated fails: the insert throws in the first attempt and succeeds in the
  second. The call returns success, the trace shows the write attempted twice, and
  the storage error was not propagated.
\<close>

theorem ingest_storage_error_counterexample:
  "fst (the (ingest \<lparr>outcome = (\<lambda>a. if a = 1 then Embedded [7::nat] (InsertThrows 0)
                                     else Embedded [7] InsertOk),
                     nanoid = (\<lambda>n. [of_nat n])\<rparr>
               [0x72] [0x61, 0x62] None None None \<lparr>embeddings = [], idsDrawn = 0, trace = []\<rparr>))
     = Returned True 1 \<and>
   trace (snd (the (ingest \<lparr>outcome = (\<lambda>a. if a = 1 then Embedded [7::nat] (InsertThrows 0)
                                     else Embedded [7] InsertOk),
                     nanoid = (\<lambda>n. [of_nat n])\<rparr>
               [0x72] [0x61, 0x62] None None None \<lparr>embeddings = [], idsDrawn = 0, trace = []\<rparr>)))
     = [EmbedManyCall, InsertCall, ConsoleError 1, Sleep 1000, EmbedManyCall, InsertCall]"
proof -
  let ?env = "\<lparr>outcome = (\<lambda>a. if a = 1 then Embedded [7::nat] (InsertThrows 0)
                                     else Embedded [7] InsertOk),
                     nanoid = (\<lambda>n. [of_nat n])\<rparr>"
  let ?w = "\<lparr>embeddings = [] :: nat embedding_row list, idsDrawn = 0, trace = []\<rparr>"
  let ?L = "ingest_loop ?env [0x72] None None None [[0x61, 0x62]]"
  have o1: "outcome ?env 1 = Embedded [7] (InsertThrows 0)"
    and o2: "outcome ?env 2 = Embedded [7] InsertOk"
    by simp_all
  have c1: "(1::nat) = 1 \<and> (2::nat) = 2 \<and> (1000::nat) = 1000 \<or>
      (1::nat) = 2 \<and> (2::nat) = 3 \<and> (1000::nat) = 2000" by simp
  from loop_insert_throws_next [OF o1 c1, of "[0x72]" None None None "[[0x61, 0x62]]" ?w]
  obtain w1 where
    s1: "?L 1 ?w = ?L 2 w1" and
    t1: "trace w1 = trace ?w @ [EmbedManyCall, InsertCall, ConsoleError 1, Sleep 1000]"
    by blast
  have le: "(2::nat) \<le> 3" by simp
  from loop_insert_ok_trace [OF le o2, of "[0x72]" None None None "[[0x61, 0x62]]" w1]
  obtain w' where
    s2: "?L 2 w1 = (Returned True (length [[0x61, 0x62 :: 16 word]]), w')" and
    t2: "trace w' = trace w1 @ [EmbedManyCall, InsertCall]"
    by blast
  have "ingest ?env [0x72] [0x61, 0x62] None None None ?w =
      Some (Returned True (length [[0x61, 0x62 :: 16 word]]), w')"
    by (simp only: ingest_runs_loop [OF chunkText_ab] s1 s2)
  with t1 t2 show ?thesis by simp
qed

text \<open>
  Claim C2, amended, at a concrete run of two chunks (a text of 801 letters): the insert
  throws in the first attempt without having stored a row, \<open>embedMany\<close> throws in the
  second, and the third attempt succeeds. The call returns success and the table holds
  exactly the two chunks, once each.
\<close>

theorem ingest_all_or_nothing_witness:
  "fst (the (ingest \<lparr>outcome = (\<lambda>a. if a = 1 then Embedded [7::nat, 8] (InsertThrows 0)
                                     else if a = 2 then EmbedThrows
                                     else Embedded [7, 8] InsertOk),
                     nanoid = (\<lambda>n. [of_nat n])\<rparr>
               [0x72] (replicate 801 0x61) None None None
               \<lparr>embeddings = [], idsDrawn = 0, trace = []\<rparr>))
     = Returned True 2 \<and>
   map row_content
     (embeddings (snd (the (ingest \<lparr>outcome = (\<lambda>a. if a = 1 then Embedded [7::nat, 8] (InsertThrows 0)
                                     else if a = 2 then EmbedThrows
                                     else Embedded [7, 8] InsertOk),
                     nanoid = (\<lambda>n. [of_nat n])\<rparr>
               [0x72] (replicate 801 0x61) None None None
               \<lparr>embeddings = [], idsDrawn = 0, trace = []\<rparr>))))
     = [replicate 801 0x61, [0x61]]"
proof -
  let ?env = "\<lparr>outcome = (\<lambda>a. if a = 1 then Embedded [7::nat, 8] (InsertThrows 0)
                                     else if a = 2 then EmbedThrows
                                     else Embedded [7, 8] InsertOk),
                     nanoid = (\<lambda>n. [of_nat n])\<rparr>"
  let ?w = "\<lparr>embeddings = [] :: nat embedding_row list, idsDrawn = 0, trace = []\<rparr>"
  let ?t = "replicate 801 (0x61 :: 16 word)"
  let ?chunks = "[?t, drop 800 ?t]"
  let ?L = "ingest_loop ?env [0x72] None None None ?chunks"
  have ch: "chunkText ?t 900 100 = Some ?chunks"
    by (rule chunkText_two_chunks) (simp_all add: isWhiteSpace_def)
  have h: "\<forall>a vectors j.
      1 \<le> a \<and> a \<le> 3 \<and> outcome ?env a = Embedded vectors (InsertThrows j) \<longrightarrow> j = 0"
    by simp
  have o1: "outcome ?env 1 = Embedded [7, 8] (InsertThrows 0)"
    and o2: "outcome ?env 2 = EmbedThrows"
    and o3: "outcome ?env 3 = Embedded [7, 8] InsertOk"
    by simp_all
  have c1: "(1::nat) = 1 \<and> (2::nat) = 2 \<and> (1000::nat) = 1000 \<or>
      (1::nat) = 2 \<and> (2::nat) = 3 \<and> (1000::nat) = 2000" by simp
  have c2: "(2::nat) = 1 \<and> (3::nat) = 2 \<or> (2::nat) = 2 \<and> (3::nat) = 3" by simp
  have le: "(3::nat) \<le> 3" by simp
  from loop_insert_throws_next [OF o1 c1, of "[0x72]" None None None ?chunks ?w]
  obtain w1 where s1: "?L 1 ?w = ?L 2 w1" by blast
  from loop_embed_throws_next [OF o2 c2, of "[0x72]" None None None ?chunks w1]
  obtain w2 where s2: "?L 2 w1 = ?L 3 w2" by blast
  from loop_insert_ok_trace [OF le o3, of "[0x72]" None None None ?chunks w2]
  obtain w3 where s3: "?L 3 w2 = (Returned True (length ?chunks), w3)" by blast
  have run: "ingest ?env [0x72] ?t None None None ?w = Some (Returned True (length ?chunks), w3)"
    by (simp only: ingest_runs_loop [OF ch] s1 s2 s3)
  have "\<exists>r w'. ingest ?env [0x72] ?t None None None ?w = Some (r, w') \<and>
           (r = Returned True (length ?chunks) \<and>
              (\<exists>rows. embeddings w' = embeddings ?w @ rows \<and> map row_content rows = ?chunks) \<or>
            r = Threw 3 \<and> embeddings w' = embeddings ?w)"
    by (rule ingest_all_or_nothing [OF ch h])
  then have "\<exists>rows. embeddings w3 = embeddings ?w @ rows \<and> map row_content rows = ?chunks"
    unfolding run by simp
  then have "map row_content (embeddings w3) = ?chunks"
    by auto
  with run show ?thesis by simp
qed

text \<open>
  Claim C2 as stated fails: a text of 801 letters gives two chunks; in each attempt the
  insert stores both rows and the call to it throws all the same (the statement was
  committed and the connection was lost before the acknowledgement). The call throws
  after three attempts, and the rows of the failed call are visible, three times over:
  nothing in \<open>ingest\<close> deletes them.
\<close>

theorem ingest_committed_insert_counterexample:
  "fst (the (ingest \<lparr>outcome = (\<lambda>a. Embedded [7::nat, 8] (InsertThrows 2)),
                     nanoid = (\<lambda>n. [of_nat n])\<rparr>
               [0x72] (replicate 801 0x61) None None None
               \<lparr>embeddings = [], idsDrawn = 0, trace = []\<rparr>))
     = Threw 3 \<and>
   map row_content
     (embeddings (snd (the (ingest \<lparr>outcome = (\<lambda>a. Embedded [7::nat, 8] (InsertThrows 2)),
                     nanoid = (\<lambda>n. [of_nat n])\<rparr>
               [0x72] (replicate 801 0x61) None None None
               \<lparr>embeddings = [], idsDrawn = 0, trace = []\<rparr>))))
     = [replicate 801 0x61, [0x61], replicate 801 0x61, [0x61], replicate 801 0x61, [0x61]]"
proof -
  let ?env = "\<lparr>outcome = (\<lambda>a. Embedded [7::nat, 8] (InsertThrows 2)),
                     nanoid = (\<lambda>n. [of_nat n])\<rparr>"
  let ?w = "\<lparr>embeddings = [] :: nat embedding_row list, idsDrawn = 0, trace = []\<rparr>"
  let ?t = "replicate 801 (0x61 :: 16 word)"
  let ?chunks = "[?t, drop 800 ?t]"
  let ?L = "ingest_loop ?env [0x72] None None None ?chunks"
  have ch: "chunkText ?t 900 100 = Some ?chunks"
    by (rule chunkText_two_chunks) (simp_all add: isWhiteSpace_def)
  have o: "outcome ?env a = Embedded [7, 8] (InsertThrows 2)" for a
    by simp
  have all_rows: "map row_content (take 2 (make_rows ids d r ti so su vs ?chunks)) = [?t, [0x61]]"
    for ids d r ti so su and vs :: "nat list"
    using content_make_rows [of ids d r ti so su vs ?chunks]
    by (simp only: take_map [symmetric]) simp
  have c1: "(1::nat) = 1 \<and> (2::nat) = 2 \<and> (1000::nat) = 1000 \<or>
      (1::nat) = 2 \<and> (2::nat) = 3 \<and> (1000::nat) = 2000" by simp
  have c2: "(2::nat) = 1 \<and> (3::nat) = 2 \<and> (2000::nat) = 1000 \<or>
      (2::nat) = 2 \<and> (3::nat) = 3 \<and> (2000::nat) = 2000" by simp
  from loop_insert_throws_next [OF o c1, of "[0x72]" None None None ?chunks ?w]
  obtain w1 where
    s1: "?L 1 ?w = ?L 2 w1" and
    e1: "embeddings w1 = embeddings ?w @
           take 2 (make_rows (nanoid ?env) (idsDrawn ?w) [0x72] None None None [7, 8] ?chunks)"
    by blast
  from loop_insert_throws_next [OF o c2, of "[0x72]" None None None ?chunks w1]
  obtain w2 where
    s2: "?L 2 w1 = ?L 3 w2" and
    e2: "embeddings w2 = embeddings w1 @
           take 2 (make_rows (nanoid ?env) (idsDrawn w1) [0x72] None None None [7, 8] ?chunks)"
    by blast
  from loop_insert_throws_last_trace [OF o, of "[0x72]" None None None ?chunks w2]
  obtain w3 where
    s3: "?L 3 w2 = (Threw 3, w3)" and
    e3: "embeddings w3 = embeddings w2 @
           take 2 (make_rows (nanoid ?env) (idsDrawn w2) [0x72] None None None [7, 8] ?chunks)"
    by blast
  have "ingest ?env [0x72] ?t None None None ?w = Some (Threw 3, w3)"
    by (simp only: ingest_runs_loop [OF ch] s1 s2 s3)
  moreover have "map row_content (embeddings w3) = [?t, [0x61], ?t, [0x61], ?t, [0x61]]"
    unfolding e3 e2 e1 map_append all_rows by simp
  ultimately show ?thesis by (simp only: option.sel fst_conv snd_conv)
qed

section \<open>Properties of retrieval\<close>

lemma mset_interleave: "p \<in> set (interleave x xs) \<Longrightarrow> mset p = add_mset x (mset xs)"
  by (induction xs arbitrary: p) auto

lemma mset_orderings: "p \<in> set (orderings xs) \<Longrightarrow> mset p = mset xs"
  by (induction xs arbitrary: p) (auto dest: mset_interleave)

lemma interleave_front: "x # b \<in> set (interleave x b)"
  by (cases b) simp_all

lemma interleave_mid: "a @ x # b \<in> set (interleave x (a @ b))"
  by (induction a) (auto simp: interleave_front)

lemma orderings_complete: "mset p = mset xs \<Longrightarrow> p \<in> set (orderings xs)"
proof (induction xs arbitrary: p)
  case Nil
  then show ?case by simp
next
  case (Cons x xs)
  then have "x \<in> set p" by (metis list.set_intros(1) set_mset_mset)
  then obtain a b where p: "p = a @ x # b" by (meson split_list)
  with Cons.prems have "mset (a @ b) = mset xs" by simp
  then have "a @ b \<in> set (orderings xs)" by (rule Cons.IH)
  with interleave_mid [of a x b] p show ?case by auto
qed

lemma in_orderings_iff: "p \<in> set (orderings xs) \<longleftrightarrow> mset p = mset xs"
  using mset_orderings orderings_complete by blast

lemma ranked_desc_sort:
  assumes "ranked_desc sim ranked" and "mset ranked = mset rows"
  shows "map sim ranked = rev (sort (map sim rows))"
proof -
  have "sorted_wrt (\<lambda>a b. b \<le> a) (map sim ranked)"
    using assms(1) by (simp add: ranked_desc_def sorted_wrt_map)
  then have "sorted (rev (map sim ranked))"
    by (simp add: sorted_wrt_rev)
  moreover have "mset (rev (map sim ranked)) = mset (map sim rows)"
    using assms(2) by (metis mset_map mset_rev)
  ultimately have "sort (map sim rows) = rev (map sim ranked)"
    by (metis properties_for_sort)
  then show ?thesis by simp
qed

lemma ranked_exists: "\<exists>ranked. mset ranked = mset rows \<and> ranked_desc sim ranked"
proof -
  let ?r = "rev (sort_key sim rows)"
  have "sorted (map sim (sort_key sim rows))" by simp
  then have "sorted_wrt (\<lambda>a b. sim a \<le> sim b) (sort_key sim rows)"
    by (simp add: sorted_wrt_map)
  then have "ranked_desc sim ?r"
    by (simp add: ranked_desc_def sorted_wrt_rev)
  moreover have "mset ?r = mset rows" by simp
  ultimately show ?thesis by blast
qed

lemma findRelevantContent_iff:
  "findRelevantContent sim table results \<longleftrightarrow>
     (\<exists>ranked. mset ranked = mset (filter (\<lambda>r. 0.3 < sim r) table) \<and>
        ranked_desc sim ranked \<and>
        results = map (\<lambda>r. \<lparr>name = row_content r, similarity = sim r\<rparr>) (take 4 ranked))"
  by (auto simp: findRelevantContent_def in_orderings_iff)

lemma similarity_results:
  "map similarity (map (\<lambda>r. \<lparr>name = row_content r, similarity = sim r\<rparr>) rows) = map sim rows"
  by simp

text \<open>
  Claim C3, as amended. \<open>findRelevantContent\<close> has no \<open>topK\<close> or \<open>minSimilarity\<close>
  parameter: the threshold is the constant 0.3 and the limit the constant 4. It always
  has an answer, and every answer is a list of \<open>{name, similarity}\<close> records (\<open>name\<close>
  holds the chunk content) that is ranked descending by similarity, contains only
  entries of stored rows with \<open>similarity > 0.3\<close>, has \<open>min 4 n\<close> entries when \<open>n\<close>
  rows qualify, and carries the 4 highest qualifying similarities.
\<close>

theorem findRelevantContent_ranked:
  "(\<exists>results. findRelevantContent sim table results) \<and>
   (\<forall>results. findRelevantContent sim table results \<longrightarrow>
      length results = min 4 (length (filter (\<lambda>r. 0.3 < sim r) table)) \<and>
      sorted_wrt (\<lambda>a b. similarity b \<le> similarity a) results \<and>
      (\<forall>e\<in>set results. 0.3 < similarity e \<and>
         (\<exists>r\<in>set table. e = \<lparr>name = row_content r, similarity = sim r\<rparr>)) \<and>
      map similarity results =
        take 4 (rev (sort (map sim (filter (\<lambda>r. 0.3 < sim r) table)))))"
proof (intro conjI allI impI)
  from ranked_exists [of "filter (\<lambda>r. 0.3 < sim r) table" sim]
  show "\<exists>results. findRelevantContent sim table results"
    unfolding findRelevantContent_iff by blast
next
  fix results
  let ?q = "filter (\<lambda>r. 0.3 < sim r) table"
  assume "findRelevantContent sim table results"
  then obtain ranked where m: "mset ranked = mset ?q" and d: "ranked_desc sim ranked"
    and r: "results = map (\<lambda>r. \<lparr>name = row_content r, similarity = sim r\<rparr>) (take 4 ranked)"
    unfolding findRelevantContent_iff by blast
  from m have len: "length ranked = length ?q" by (rule mset_eq_length)
  from m have set: "set ranked = set ?q" by (rule mset_eq_setD)
  show "length results = min 4 (length ?q)"
    using len by (simp add: r min.commute)
  have "sorted_wrt (\<lambda>a b. sim b \<le> sim a) (take 4 ranked)"
    using d unfolding ranked_desc_def by (rule sorted_wrt_take)
  then show "sorted_wrt (\<lambda>a b. similarity b \<le> similarity a) results"
    by (simp add: r sorted_wrt_map)
  show "\<forall>e\<in>set results. 0.3 < similarity e \<and>
         (\<exists>r\<in>set table. e = \<lparr>name = row_content r, similarity = sim r\<rparr>)"
  proof
    fix e
    assume "e \<in> set results"
    then obtain row where "row \<in> set (take 4 ranked)"
      and e: "e = \<lparr>name = row_content row, similarity = sim row\<rparr>"
      unfolding r by auto
    then have "row \<in> set ?q" using set by (auto dest: in_set_takeD)
    then have "0.3 < sim row" "row \<in> set table" by simp_all
    with e show "0.3 < similarity e \<and>
         (\<exists>r\<in>set table. e = \<lparr>name = row_content r, similarity = sim r\<rparr>)"
      by auto
  qed
  have "map similarity results = take 4 (map sim ranked)"
    unfolding r similarity_results by (rule take_map [symmetric])
  then show "map similarity results = take 4 (rev (sort (map sim ?q)))"
    using ranked_desc_sort [OF d m] by simp
qed

text \<open>
  Claim C8, as amended. Any two answers of the query for the same store and the same
  similarities list the same similarity values in the same order, and they are the same
  list when no two qualifying rows have equal similarity. The query has no tie-break
  key: the order among rows of equal similarity is not fixed by the code.
\<close>

theorem findRelevantContent_up_to_ties:
  assumes "findRelevantContent sim table ra" and "findRelevantContent sim table rb"
  shows "map similarity ra = map similarity rb \<and>
         (distinct (map sim (filter (\<lambda>r. 0.3 < sim r) table)) \<longrightarrow> ra = rb)"
proof -
  let ?q = "filter (\<lambda>r. 0.3 < sim r) table"
  let ?proj = "\<lambda>r. \<lparr>name = row_content r, similarity = sim r\<rparr>"
  from assms(1) obtain k1 where m1: "mset k1 = mset ?q" and d1: "ranked_desc sim k1"
    and ra: "ra = map ?proj (take 4 k1)"
    unfolding findRelevantContent_iff by blast
  from assms(2) obtain k2 where m2: "mset k2 = mset ?q" and d2: "ranked_desc sim k2"
    and rb: "rb = map ?proj (take 4 k2)"
    unfolding findRelevantContent_iff by blast
  have keys: "map sim k1 = map sim k2"
    using ranked_desc_sort [OF d1 m1] ranked_desc_sort [OF d2 m2] by simp
  have "map similarity ra = take 4 (map sim k1)" "map similarity rb = take 4 (map sim k2)"
    unfolding ra rb similarity_results by (rule take_map [symmetric])+
  with keys have same: "map similarity ra = map similarity rb" by simp
  have "ra = rb" if dist: "distinct (map sim ?q)"
  proof -
    from dist have "inj_on sim (set ?q)" by (simp add: distinct_map)
    moreover have "set k1 = set ?q" "set k2 = set ?q"
      using m1 [THEN mset_eq_setD] m2 [THEN mset_eq_setD] by (simp_all only:)
    ultimately have "inj_on sim (set k1 \<union> set k2)" by simp
    with keys have "k1 = k2" by (simp add: inj_on_map_eq_map)
    then show ?thesis by (simp add: ra rb)
  qed
  with same show ?thesis by blast
qed

lemma sample_sim_row [simp]: "sample_sim (sample_row c s) = s"
  by (simp add: sample_sim_def sample_row_def)

lemma sample_content_row [simp]: "row_content (sample_row c s) = c"
  by (simp add: sample_row_def)

lemma sample_row_eq [simp]: "sample_row c s = sample_row c' s' \<longleftrightarrow> c = c' \<and> s = s'"
  by (auto simp: sample_row_def)

text \<open>
  Claim C3, amended, on the store of the specification's example: chunks A (0.9),
  B (0.5) and C (0.2) give \<open>[A, B]\<close>.
\<close>

theorem findRelevantContent_ranked_witness:
  "findRelevantContent sample_sim
     [sample_row [0x41] 0.9, sample_row [0x42] 0.5, sample_row [0x43] 0.2]
     [\<lparr>name = [0x41], similarity = 0.9\<rparr>, \<lparr>name = [0x42], similarity = 0.5\<rparr>] \<and>
   map similarity [\<lparr>name = [0x41], similarity = 0.9\<rparr>, \<lparr>name = [0x42], similarity = 0.5\<rparr>] =
     take 4 (rev (sort (map sample_sim (filter (\<lambda>r. 0.3 < sample_sim r)
       [sample_row [0x41] 0.9, sample_row [0x42] 0.5, sample_row [0x43] 0.2]))))"
proof -
  let ?t = "[sample_row [0x41] 0.9, sample_row [0x42] 0.5, sample_row [0x43] 0.2]"
  let ?r = "[\<lparr>name = [0x41], similarity = 0.9\<rparr>, \<lparr>name = [0x42], similarity = 0.5\<rparr>]"
  have f: "findRelevantContent sample_sim ?t ?r"
    by (simp add: findRelevantContent_def ranked_desc_def)
  from findRelevantContent_ranked [of sample_sim ?t]
  have "\<forall>results. findRelevantContent sample_sim ?t results \<longrightarrow>
      length results = min 4 (length (filter (\<lambda>r. 0.3 < sample_sim r) ?t)) \<and>
      sorted_wrt (\<lambda>a b. similarity b \<le> similarity a) results \<and>
      (\<forall>e\<in>set results. 0.3 < similarity e \<and>
         (\<exists>r\<in>set ?t. e = \<lparr>name = row_content r, similarity = sample_sim r\<rparr>)) \<and>
      map similarity results =
        take 4 (rev (sort (map sample_sim (filter (\<lambda>r. 0.3 < sample_sim r) ?t))))"
    by (rule conjunct2)
  from this [THEN spec, THEN mp, OF f] f show ?thesis by blast
qed

text \<open>
  Claim C3 as stated fails: for \<open>topK = 4\<close> and \<open>minSimilarity = 0.5\<close>, both within the
  stated ranges, the contract discards a chunk of similarity 0.4, and the code returns it.
\<close>

theorem findRelevantContent_parameters_counterexample:
  "findRelevantContent sample_sim [sample_row [0x61] 0.4] [\<lparr>name = [0x61], similarity = 0.4\<rparr>] \<and>
   \<not> findRelevant_spec 4 0.5 sample_sim [sample_row [0x61] 0.4]
       [\<lparr>name = [0x61], similarity = 0.4\<rparr>]"
  by (simp add: findRelevantContent_def findRelevant_spec_def ranked_desc_def)

text \<open>
  Claim C8, amended, at a concrete store without ties: \<open>[A, B]\<close> is an answer and the
  other order is not.
\<close>

theorem findRelevantContent_up_to_ties_witness:
  "findRelevantContent sample_sim [sample_row [0x42] 0.5, sample_row [0x41] 0.9]
     [\<lparr>name = [0x41], similarity = 0.9\<rparr>, \<lparr>name = [0x42], similarity = 0.5\<rparr>] \<and>
   \<not> findRelevantContent sample_sim [sample_row [0x42] 0.5, sample_row [0x41] 0.9]
     [\<lparr>name = [0x42], similarity = 0.5\<rparr>, \<lparr>name = [0x41], similarity = 0.9\<rparr>]"
proof -
  let ?t = "[sample_row [0x42] 0.5, sample_row [0x41] 0.9]"
  let ?r = "[\<lparr>name = [0x41], similarity = 0.9\<rparr>, \<lparr>name = [0x42], similarity = 0.5\<rparr>]"
  let ?s = "[\<lparr>name = [0x42], similarity = 0.5\<rparr>, \<lparr>name = [0x41], similarity = 0.9\<rparr>]"
  have f: "findRelevantContent sample_sim ?t ?r"
    by (simp add: findRelevantContent_def ranked_desc_def)
  have d: "distinct (map sample_sim (filter (\<lambda>r. 0.3 < sample_sim r) ?t))"
    by simp
  have "\<not> findRelevantContent sample_sim ?t ?s"
  proof
    assume "findRelevantContent sample_sim ?t ?s"
    from findRelevantContent_up_to_ties [OF f this] d have "?r = ?s" by blast
    then show False by simp
  qed
  with f show ?thesis by blast
qed

text \<open>
  Claim C8 as stated fails: for two stored chunks A and D of equal similarity 0.9, with
  A stored first, both \<open>[A, D]\<close> and \<open>[D, A]\<close> are answers of the query: the answer
  is not a function of the inputs, and the tie is not broken by chunk order.
\<close>

theorem findRelevantContent_tie_counterexample:
  "findRelevantContent sample_sim [sample_row [0x41] 0.9, sample_row [0x44] 0.9]
     [\<lparr>name = [0x41], similarity = 0.9\<rparr>, \<lparr>name = [0x44], similarity = 0.9\<rparr>] \<and>
   findRelevantContent sample_sim [sample_row [0x41] 0.9, sample_row [0x44] 0.9]
     [\<lparr>name = [0x44], similarity = 0.9\<rparr>, \<lparr>name = [0x41], similarity = 0.9\<rparr>] \<and>
   [\<lparr>name = [0x41], similarity = 0.9\<rparr>, \<lparr>name = [0x44], similarity = 0.9\<rparr>] \<noteq>
   [\<lparr>name = [0x44], similarity = 0.9\<rparr>, \<lparr>name = [0x41], similarity = 0.9\<rparr>]"
  by (simp add: findRelevantContent_def ranked_desc_def)

section \<open>Properties of the schema\<close>

lemma execute_references_hold:
  "references_hold db \<Longrightarrow> execute s db = Inr db' \<Longrightarrow> references_hold db'"
proof (cases s)
  case (InsertConversation c)
  then show "references_hold db \<Longrightarrow> execute s db = Inr db' \<Longrightarrow> references_hold db'"
    by (auto simp: references_hold_def split: if_splits)
next
  case (InsertMessage m)
  then show "references_hold db \<Longrightarrow> execute s db = Inr db' \<Longrightarrow> references_hold db'"
    by (auto simp: references_hold_def split: if_splits)
next
  case (DeleteConversation cid)
  then show "references_hold db \<Longrightarrow> execute s db = Inr db' \<Longrightarrow> references_hold db'"
    by (fastforce simp: references_hold_def image_iff)
next
  case (DeleteMessage mid)
  then show "references_hold db \<Longrightarrow> execute s db = Inr db' \<Longrightarrow> references_hold db'"
    by (auto simp: references_hold_def)
next
  case (UpdateMessageConversation mid cid)
  then show "references_hold db \<Longrightarrow> execute s db = Inr db' \<Longrightarrow> references_hold db'"
    by (auto simp: references_hold_def split: if_splits)
next
  case (UpdateConversationId old new)
  assume h: "references_hold db" and e: "execute s db = Inr db'"
  show "references_hold db'"
  proof (cases "old = new \<or> old \<notin> set (map c_id (conversations db))")
    case True
    with UpdateConversationId e h show ?thesis by simp
  next
    case False
    with UpdateConversationId e have unref: "old \<notin> set (map m_conversation_id (messages db))"
      and db': "db' = db\<lparr>conversations :=
                  map (\<lambda>c. if c_id c = old then c\<lparr>c_id := new\<rparr> else c) (conversations db)\<rparr>"
      by (auto split: if_splits)
    show ?thesis
      unfolding references_hold_def
    proof
      fix m
      assume m: "m \<in> set (messages db')"
      then have m': "m \<in> set (messages db)" by (simp add: db')
      with h obtain c where c: "c \<in> set (conversations db)" "c_id c = m_conversation_id m"
        by (auto simp: references_hold_def)
      from m' unref have "m_conversation_id m \<noteq> old" by auto
      with c have "c_id (if c_id c = old then c\<lparr>c_id := new\<rparr> else c) = m_conversation_id m"
        by simp
      with c(1) show "m_conversation_id m \<in> set (map c_id (conversations db'))"
        unfolding db' by (force simp: image_iff)
    qed
  qed
qed

lemma run_references_hold: "references_hold db \<Longrightarrow> references_hold (run ss db)"
  by (induction ss arbitrary: db) (auto split: sum.splits dest: execute_references_hold)

text \<open>
  Claim C10. After any session on the freshly migrated (empty) database, and after any
  session on a database in which every message names an existing conversation, every
  message still names an existing conversation. Deleting a conversation always succeeds
  and removes exactly the messages of that conversation with it: afterwards neither the
  conversation nor any message naming it exists.
\<close>

theorem messages_never_outlive_conversation:
  "references_hold (run ss \<lparr>conversations = [], messages = []\<rparr>) \<and>
   (references_hold db \<longrightarrow> references_hold (run ss db)) \<and>
   (\<exists>db'. execute (DeleteConversation cid) db = Inr db' \<and>
      messages db' = filter (\<lambda>m. m_conversation_id m \<noteq> cid) (messages db) \<and>
      cid \<notin> set (map c_id (conversations db')) \<and>
      cid \<notin> set (map m_conversation_id (messages db')))"
proof (intro conjI impI)
  have "references_hold \<lparr>conversations = [], messages = []\<rparr>"
    by (simp add: references_hold_def)
  then show "references_hold (run ss \<lparr>conversations = [], messages = []\<rparr>)"
    by (rule run_references_hold)
next
  assume "references_hold db"
  then show "references_hold (run ss db)" by (rule run_references_hold)
next
  show "\<exists>db'. execute (DeleteConversation cid) db = Inr db' \<and>
      messages db' = filter (\<lambda>m. m_conversation_id m \<noteq> cid) (messages db) \<and>
      cid \<notin> set (map c_id (conversations db')) \<and>
      cid \<notin> set (map m_conversation_id (messages db'))"
    by auto
qed

text \<open>
  Claim C10 at a concrete session: two conversations with one message each; a message
  for a missing conversation is rejected, and deleting the first conversation deletes
  its message.
\<close>

theorem messages_never_outlive_conversation_witness:
  "references_hold
     \<lparr>conversations = [sample_conversation [0x31], sample_conversation [0x32]],
      messages = [sample_message [0x61] [0x31], sample_message [0x62] [0x32]]\<rparr> \<and>
   references_hold
     (run [InsertMessage (sample_message [0x63] [0x39]), DeleteConversation [0x31]]
        \<lparr>conversations = [sample_conversation [0x31], sample_conversation [0x32]],
         messages = [sample_message [0x61] [0x31], sample_message [0x62] [0x32]]\<rparr>) \<and>
   run [InsertMessage (sample_message [0x63] [0x39]), DeleteConversation [0x31]]
        \<lparr>conversations = [sample_conversation [0x31], sample_conversation [0x32]],
         messages = [sample_message [0x61] [0x31], sample_message [0x62] [0x32]]\<rparr>
     = \<lparr>conversations = [sample_conversation [0x32]],
        messages = [sample_message [0x62] [0x32]]\<rparr>"
proof -
  let ?db = "\<lparr>conversations = [sample_conversation [0x31], sample_conversation [0x32]],
      messages = [sample_message [0x61] [0x31], sample_message [0x62] [0x32]]\<rparr>"
  let ?ss = "[InsertMessage (sample_message [0x63] [0x39]), DeleteConversation [0x31]]"
  have h: "references_hold ?db"
    by (simp add: references_hold_def sample_conversation_def sample_message_def)
  from messages_never_outlive_conversation [of ?ss ?db]
  have "references_hold ?db \<longrightarrow> references_hold (run ?ss ?db)"
    by blast
  with h have r: "references_hold (run ?ss ?db)" by (rule rev_mp)
  have "run ?ss ?db = \<lparr>conversations = [sample_conversation [0x32]],
        messages = [sample_message [0x62] [0x32]]\<rparr>"
    by (simp add: sample_conversation_def sample_message_def)
  with h r show ?thesis by (intro conjI)
qed

end
